(* ===== verification/Moat_Prelude.thy ===== *)
theory Moat_Prelude
  imports Main "HOL-Library.Word" "HOL-Library.Monad_Syntax"
begin

text \<open>
  Shared vocabulary of the development: the machine integer types of the Rust sources,
  the arithmetic of the standard library that the sources call (saturating and checked
  addition, byte-order conversions), results with an error value, the generic contracts
  (invariants of event-driven components, refinement of a component by an abstract
  specification, encoders with a left inverse) as locales, and the lemmas about words,
  lists and options that several components use.
\<close>

unbundle bit_operations_syntax

section \<open>Types and collections\<close>

type_synonym u8 = "8 word"
type_synonym u16 = "16 word"
type_synonym u32 = "32 word"
type_synonym u64 = "64 word"
text \<open>The eBPF target and the host are 64-bit, so \<open>usize\<close> is a 64-bit word.\<close>
type_synonym usize = "64 word"

named_theorems moat_consts "the numeric constants of moatd-common and of the data path"
named_theorems word_nat "translation of word operations to natural numbers"

section \<open>Results\<close>

text \<open>Rust's \<open>Result\<close>: \<^term>\<open>Inl e\<close> is \<open>Err(e)\<close>, \<^term>\<open>Inr v\<close> is \<open>Ok(v)\<close>;
  \<open>rbind\<close> is the question-mark operator followed by the rest of the function.\<close>

type_synonym ('e, 'a) result = "'e + 'a"

definition rbind :: "('e, 'a) result \<Rightarrow> ('a \<Rightarrow> ('e, 'b) result) \<Rightarrow> ('e, 'b) result" where
  "rbind r f = (case r of Inl e \<Rightarrow> Inl e | Inr v \<Rightarrow> f v)"

lemma rbind_simps [simp]:
  "rbind (Inl e) f = Inl e"
  "rbind (Inr v) f = f v"
  by (simp_all add: rbind_def)

lemma rbind_eq_Inr [simp]: "rbind r f = Inr y \<longleftrightarrow> (\<exists>v. r = Inr v \<and> f v = Inr y)"
  by (simp add: rbind_def split: sum.split)

lemma rbind_eq_Inl: "rbind r f = Inl e \<longleftrightarrow> r = Inl e \<or> (\<exists>v. r = Inr v \<and> f v = Inl e)"
  by (simp add: rbind_def split: sum.split)

definition is_ok :: "('e, 'a) result \<Rightarrow> bool" where
  "is_ok r = (case r of Inl _ \<Rightarrow> False | Inr _ \<Rightarrow> True)"

lemma is_ok_simps [simp]: "\<not> is_ok (Inl e)" "is_ok (Inr v)"
  by (simp_all add: is_ok_def)

lemma is_ok_iff: "is_ok r \<longleftrightarrow> (\<exists>v. r = Inr v)"
  by (simp add: is_ok_def split: sum.split)

section \<open>Arithmetic of the Rust standard library\<close>

definition saturating_sub :: "'a::len word \<Rightarrow> 'a word \<Rightarrow> 'a word" where
  "saturating_sub a b = (if a < b then 0 else a - b)"

definition saturating_add :: "'a::len word \<Rightarrow> 'a word \<Rightarrow> 'a word" where
  "saturating_add a b = (if unat a + unat b < 2 ^ LENGTH('a) then a + b else - 1)"

definition checked_add :: "'a::len word \<Rightarrow> 'a word \<Rightarrow> 'a word option" where
  "checked_add a b = (if unat a + unat b < 2 ^ LENGTH('a) then Some (a + b) else None)"

lemma unat_plus_exact: "unat a + unat b < 2 ^ LENGTH('a) \<Longrightarrow> unat (a + b :: 'a::len word) = unat a + unat b"
  by (simp add: unat_word_ariths)

lemma unat_minus_exact: "b \<le> a \<Longrightarrow> unat (a - b :: 'a::len word) = unat a - unat b"
  by (rule unat_sub)

lemma unat_saturating_sub [word_nat]: "unat (saturating_sub a b) = unat a - unat b"
  by (auto simp: saturating_sub_def word_less_nat_alt unat_minus_exact word_le_nat_alt)

lemma unat_saturating_add [word_nat]:
  "unat (saturating_add a b :: 'a::len word) = min (unat a + unat b) (2 ^ LENGTH('a) - 1)"
  by (auto simp: saturating_add_def unat_plus_exact unsigned_minus_1_eq_mask mask_eq_exp_minus_1 min_def)

lemma checked_add_Some:
  "checked_add a b = Some (c :: 'a::len word) \<longleftrightarrow> unat a + unat b < 2 ^ LENGTH('a) \<and> c = a + b"
  by (auto simp: checked_add_def)

lemma saturating_sub_self [simp]: "saturating_sub a a = 0"
  by (simp add: saturating_sub_def)

subsection \<open>Byte order\<close>

text \<open>\<open>from_be_bytes\<close>: the bytes of an integer, most significant first.\<close>

definition be_word :: "u8 list \<Rightarrow> 'a::len word" where
  "be_word bs = foldl (\<lambda>acc b. push_bit 8 acc OR ucast b) 0 bs"

text \<open>A native read on the little-endian targets: the bytes as they stand in memory,
  least significant first; \<open>to_ne_bytes\<close> is its inverse and \<open>from_be\<close> swaps the bytes.\<close>

definition le_word :: "u8 list \<Rightarrow> 'a::len word" where
  "le_word bs = be_word (rev bs)"

definition swap_bytes16 :: "u16 \<Rightarrow> u16" where
  "swap_bytes16 w = push_bit 8 w OR drop_bit 8 w"

definition from_be16 :: "u16 \<Rightarrow> u16" where
  "from_be16 w = swap_bytes16 w"

definition to_ne_bytes32 :: "u32 \<Rightarrow> u8 list" where
  "to_ne_bytes32 w = [ucast w, ucast (drop_bit 8 w), ucast (drop_bit 16 w), ucast (drop_bit 24 w)]"

definition to_be_bytes16 :: "u16 \<Rightarrow> u8 list" where
  "to_be_bytes16 w = [ucast (drop_bit 8 w), ucast w]"

definition to_be_bytes32 :: "u32 \<Rightarrow> u8 list" where
  "to_be_bytes32 w = [ucast (drop_bit 24 w), ucast (drop_bit 16 w), ucast (drop_bit 8 w), ucast w]"

lemma be_word_Nil [simp]: "be_word [] = 0"
  by (simp add: be_word_def)

lemma be_word_snoc: "be_word (bs @ [b]) = push_bit 8 (be_word bs) OR ucast b"
  by (simp add: be_word_def)

lemma bit_be_word:
  assumes "8 * length bs \<le> LENGTH('a)"
  shows "bit (be_word bs :: 'a::len word) i \<longleftrightarrow>
    i < 8 * length bs \<and> bit (bs ! (length bs - 1 - i div 8)) (i mod 8)"
  using assms
proof (induction bs arbitrary: i rule: rev_induct)
  case Nil
  then show ?case by simp
next
  case (snoc b bs)
  show ?case
  proof (cases "i < 8")
    case True
    then show ?thesis using snoc.prems
      by (simp add: be_word_snoc bit_simps)
  next
    case False
    then obtain j where i: "i = 8 + j" by (metis le_add_diff_inverse not_less)
    have "(8 + j) div 8 = Suc (j div 8)" by simp
    moreover have "\<not> bit b i" using False bit_imp_le_length [of b i] by auto
    moreover have "length bs - Suc (j div 8) < length bs" if "j < 8 * length bs"
      using that by (cases bs) auto
    moreover have "bit (be_word bs :: 'a word) j \<longleftrightarrow>
        j < 8 * length bs \<and> bit (bs ! (length bs - 1 - j div 8)) (j mod 8)"
      using snoc by simp
    moreover have "i < LENGTH('a)" if "j < 8 * length bs"
      using that snoc.prems i by simp
    ultimately show ?thesis
      by (auto simp: be_word_snoc bit_simps i nth_append)
  qed
qed

lemma swap_le_is_be: "from_be16 (le_word [a, b]) = be_word [a, b]"
proof (rule bit_word_eqI)
  fix n assume "n < LENGTH(16)"
  then have "n < 16" by simp
  then show "bit (from_be16 (le_word [a, b])) n = bit (be_word [a, b] :: u16) n"
    by (cases "n < 8")
      (auto simp: from_be16_def swap_bytes16_def le_word_def bit_simps bit_be_word le_div_geq le_mod_geq)
qed

lemma to_ne_bytes_le_word: "to_ne_bytes32 (le_word [a, b, c, d]) = [a, b, c, d]"
proof -
  have "ucast (drop_bit (8 * k) (le_word [a, b, c, d] :: u32)) = [a, b, c, d] ! k" if "k < 4" for k
  proof (rule bit_word_eqI)
    fix n assume "n < LENGTH(8)"
    then have n: "n < 8" by simp
    then have "(8 * k + n) div 8 = k" "(8 * k + n) mod 8 = n" by simp_all
    moreover have "[d, c, b, a] ! (3 - k) = [a, b, c, d] ! k"
      using that by (auto simp: numeral_eq_Suc less_Suc_eq)
    ultimately show "bit (ucast (drop_bit (8 * k) (le_word [a, b, c, d] :: u32)) :: u8) n = bit ([a, b, c, d] ! k) n"
      using n that by (auto simp: le_word_def bit_simps bit_be_word numeral_3_eq_3)
  qed
  from this [of 0] this [of 1] this [of 2] this [of 3] show ?thesis
    by (simp add: to_ne_bytes32_def)
qed

lemma be_word_to_be_bytes16 [simp]: "be_word (to_be_bytes16 w) = w"
proof (rule bit_word_eqI)
  fix n assume "n < LENGTH(16)"
  then have "n < 16" by simp
  then show "bit (be_word (to_be_bytes16 w) :: u16) n = bit w n"
    by (cases "n < 8") (auto simp: to_be_bytes16_def bit_simps bit_be_word le_div_geq le_mod_geq)
qed

section \<open>Contracts shared by several components\<close>

text \<open>
  An event-driven component: \<open>step e s\<close> is the state after handling event \<open>e\<close>, \<open>adm\<close>
  says which events the environment can send and \<open>inv\<close> is what every handler keeps.
  A run handles a list of events in order.
\<close>

locale event_invariant =
  fixes step :: "'e \<Rightarrow> 's \<Rightarrow> 's"
    and adm :: "'e \<Rightarrow> bool"
    and inv :: "'s \<Rightarrow> bool"
  assumes inv_step: "inv s \<Longrightarrow> adm e \<Longrightarrow> inv (step e s)"
begin

lemma run_inv: "inv s \<Longrightarrow> list_all adm es \<Longrightarrow> inv (fold step es s)"
  by (induction es arbitrary: s) (simp_all add: inv_step)

end

text \<open>
  A component that implements an abstract specification: \<open>abs\<close> maps its state to the
  abstract one and every step commutes with it.
\<close>

locale simulation = event_invariant step adm inv
  for step :: "'e \<Rightarrow> 's \<Rightarrow> 's" and adm :: "'e \<Rightarrow> bool" and inv :: "'s \<Rightarrow> bool" +
  fixes abs :: "'s \<Rightarrow> 'a"
    and astep :: "'e \<Rightarrow> 'a \<Rightarrow> 'a"
  assumes sim: "inv s \<Longrightarrow> adm e \<Longrightarrow> abs (step e s) = astep e (abs s)"
begin

lemma run_sim: "inv s \<Longrightarrow> list_all adm es \<Longrightarrow> abs (fold step es s) = fold astep es (abs s)"
  by (induction es arbitrary: s) (simp_all add: inv_step sim)

end

text \<open>An encoder with a left inverse, on the values of \<open>valid\<close>.\<close>

locale codec =
  fixes enc :: "'a \<Rightarrow> 'b"
    and dec :: "'b \<Rightarrow> 'a option"
    and valid :: "'a \<Rightarrow> bool"
  assumes dec_enc: "valid x \<Longrightarrow> dec (enc x) = Some x"
begin

lemma enc_inj: "valid x \<Longrightarrow> valid y \<Longrightarrow> enc x = enc y \<Longrightarrow> x = y"
  by (metis dec_enc option.inject)

end

end
