(* ===== verification/Rust_Std.thy ===== *)
theory Rust_Std
  imports Moat_Prelude
begin

text \<open>
  The string functions of the Rust standard library that the sources call: splitting,
  trimming, ASCII lower case, parsing of unsigned integers (\<open>str::parse\<close>), the textual
  IPv4 and IPv6 addresses of \<open>std::net\<close> with their \<open>Display\<close>, and the lemmas about
  them that the components use. A string is the list of its UTF-8 bytes.
\<close>

section \<open>Splitting, joining, trimming\<close>

fun split_once :: "char \<Rightarrow> string \<Rightarrow> (string \<times> string) option" where
  "split_once c [] = None"
| "split_once c (x # xs) =
     (if x = c then Some ([], xs) else map_option (\<lambda>(a, b). (x # a, b)) (split_once c xs))"

definition rsplit_once :: "char \<Rightarrow> string \<Rightarrow> (string \<times> string) option" where
  "rsplit_once c s = map_option (\<lambda>(b, a). (rev a, rev b)) (split_once c (rev s))"

fun split_on :: "char \<Rightarrow> string \<Rightarrow> string list" where
  "split_on c [] = [[]]"
| "split_on c (x # xs) =
     (if x = c then [] # split_on c xs
      else (case split_on c xs of [] \<Rightarrow> [[x]] | h # t \<Rightarrow> (x # h) # t))"

fun join_with :: "string \<Rightarrow> string list \<Rightarrow> string" where
  "join_with sep [] = []"
| "join_with sep [x] = x"
| "join_with sep (x # y # ys) = x @ sep @ join_with sep (y # ys)"

definition starts_with :: "string \<Rightarrow> string \<Rightarrow> bool" where
  "starts_with p s = (take (length p) s = p)"

text \<open>The UTF-8 encodings of the characters with the property \<open>White_Space\<close>, which
  \<open>str::trim\<close> removes at both ends.\<close>

definition white_space :: "string list" where
  "white_space =
     [[CHR 0x09], [CHR 0x0A], [CHR 0x0B], [CHR 0x0C], [CHR 0x0D], [CHR 0x20],
      [CHR 0xC2, CHR 0x85], [CHR 0xC2, CHR 0xA0], [CHR 0xE1, CHR 0x9A, CHR 0x80]] @
     map (\<lambda>n. [CHR 0xE2, CHR 0x80, char_of n]) [128, 129, 130, 131, 132, 133, 134, 135, 136, 137, 138,
       168, 169, 175 :: nat] @
     [[CHR 0xE2, CHR 0x81, CHR 0x9F], [CHR 0xE3, CHR 0x80, CHR 0x80]]"

fun strip_one :: "string list \<Rightarrow> string \<Rightarrow> string option" where
  "strip_one [] s = None"
| "strip_one (w # ws) s =
     (if w \<noteq> [] \<and> starts_with w s then Some (drop (length w) s) else strip_one ws s)"

lemma strip_one_shorter: "strip_one ws s = Some s' \<Longrightarrow> length s' < length s"
proof (induction ws)
  case Nil
  then show ?case by simp
next
  case (Cons w ws)
  show ?case
  proof (cases "w \<noteq> [] \<and> starts_with w s")
    case True
    then have "s \<noteq> []" by (auto simp: starts_with_def)
    with True Cons.prems show ?thesis by auto
  next
    case False
    with Cons show ?thesis by (auto split: if_splits)
  qed
qed

function strip_all :: "string list \<Rightarrow> string \<Rightarrow> string" where
  "strip_all ws s = (case strip_one ws s of None \<Rightarrow> s | Some s' \<Rightarrow> strip_all ws s')"
  by pat_completeness auto
termination
  by (relation "measure (\<lambda>(ws, s). length s)") (auto simp: strip_one_shorter)

declare strip_all.simps [simp del]

definition trim :: "string \<Rightarrow> string" where
  "trim s = rev (strip_all (map rev white_space) (rev (strip_all white_space s)))"

definition ascii_lower :: "char \<Rightarrow> char" where
  "ascii_lower c = (if 65 \<le> (of_char c :: nat) \<and> (of_char c :: nat) \<le> 90
                    then char_of ((of_char c :: nat) + 32) else c)"

definition to_ascii_lowercase :: "string \<Rightarrow> string" where
  "to_ascii_lowercase s = map ascii_lower s"

lemma split_once_Some_iff:
  "split_once c s = Some (a, b) \<longleftrightarrow> s = a @ c # b \<and> c \<notin> set a"
proof (induction s arbitrary: a)
  case Nil
  then show ?case by simp
next
  case (Cons x xs)
  show ?case
    by (cases a) (auto simp: Cons.IH)
qed

lemma split_once_None_iff: "split_once c s = None \<longleftrightarrow> c \<notin> set s"
  by (induction s) auto

lemma rsplit_once_Some_iff:
  "rsplit_once c s = Some (a, b) \<longleftrightarrow> s = a @ c # b \<and> c \<notin> set b"
proof -
  have "rsplit_once c s = Some (a, b) \<longleftrightarrow> split_once c (rev s) = Some (rev b, rev a)"
    by (auto simp: rsplit_once_def)
  also have "\<dots> \<longleftrightarrow> rev s = rev (a @ c # b) \<and> c \<notin> set b"
    by (simp add: split_once_Some_iff)
  finally show ?thesis by (simp only: rev_is_rev_conv)
qed

lemma rsplit_once_None_iff: "rsplit_once c s = None \<longleftrightarrow> c \<notin> set s"
  by (simp add: rsplit_once_def split_once_None_iff)

lemma split_on_not_Nil [simp]: "split_on c s \<noteq> []"
  by (induction s) (auto split: list.splits)

lemma split_on_no_sep: "p \<in> set (split_on c s) \<Longrightarrow> c \<notin> set p"
  by (induction s arbitrary: p) (fastforce split: if_splits list.splits)+

text \<open>Splitting at a character and joining with it gives the string back.\<close>

lemma join_split: "join_with [c] (split_on c s) = s"
proof (induction s)
  case Nil
  then show ?case by simp
next
  case (Cons x xs)
  obtain h t where ht: "split_on c xs = h # t" by (cases "split_on c xs") auto
  with Cons.IH show ?case by (cases t) auto
qed

section \<open>Unsigned integers\<close>

definition digit_val :: "nat \<Rightarrow> char \<Rightarrow> nat option" where
  "digit_val radix c =
     (let n = of_char c :: nat;
          d = (if 48 \<le> n \<and> n \<le> 57 then n - 48
               else if 97 \<le> n \<and> n \<le> 122 then n - 87
               else if 65 \<le> n \<and> n \<le> 90 then n - 55 else 36)
      in if d < radix then Some d else None)"

fun parse_digits :: "nat \<Rightarrow> nat \<Rightarrow> string \<Rightarrow> nat option" where
  "parse_digits mx acc [] = Some acc"
| "parse_digits mx acc (c # cs) =
     (case digit_val 10 c of
        None \<Rightarrow> None
      | Some d \<Rightarrow> if acc * 10 + d \<le> mx then parse_digits mx (acc * 10 + d) cs else None)"

text \<open>\<open>str::parse\<close> for an unsigned type with largest value \<open>mx\<close>: one leading \<open>+\<close> is
  accepted, the empty string and a sign alone are not.\<close>

definition parse_uint :: "nat \<Rightarrow> string \<Rightarrow> nat option" where
  "parse_uint mx s =
     (if s = [] \<or> s = ''+'' \<or> s = ''-'' then None
      else if hd s = CHR ''+'' then parse_digits mx 0 (tl s)
      else parse_digits mx 0 s)"

definition parse_u8 :: "string \<Rightarrow> u8 option" where
  "parse_u8 s = map_option of_nat (parse_uint 255 s)"

definition parse_u16 :: "string \<Rightarrow> u16 option" where
  "parse_u16 s = map_option of_nat (parse_uint 65535 s)"

definition parse_u32 :: "string \<Rightarrow> u32 option" where
  "parse_u32 s = map_option of_nat (parse_uint 4294967295 s)"

definition digit_char :: "nat \<Rightarrow> char" where
  "digit_char d = char_of (if d < 10 then 48 + d else 87 + d)"

text \<open>\<open>Display\<close> of an unsigned integer in the given radix.\<close>

fun show_radix :: "nat \<Rightarrow> nat \<Rightarrow> string" where
  "show_radix r n = (if r < 2 \<or> n < r then [digit_char n] else show_radix r (n div r) @ [digit_char (n mod r)])"

declare show_radix.simps [simp del]

abbreviation dec_string :: "nat \<Rightarrow> string" where
  "dec_string n \<equiv> show_radix 10 n"

lemma digit_val_digit_char: "d < 10 \<Longrightarrow> digit_val 10 (digit_char d) = Some d"
  by (simp add: digit_val_def digit_char_def)

lemma digit_char_not_sign: "d < 10 \<Longrightarrow> digit_char d \<noteq> CHR ''+'' \<and> digit_char d \<noteq> CHR ''-'' \<and>
    digit_char d \<noteq> CHR ''.'' \<and> digit_char d \<noteq> CHR ''/'' \<and> digit_char d \<noteq> CHR '':''"
  by (auto simp: digit_char_def char_of_eq_iff take_bit_eq_mod)

lemma dec_string_digits: "c \<in> set (dec_string n) \<Longrightarrow> \<exists>d<10. c = digit_char d"
proof (induction "10 :: nat" n rule: show_radix.induct)
  case (1 n)
  have "\<exists>d<10. digit_char (n mod 10) = digit_char d"
    by (rule exI [of _ "n mod 10"]) simp
  with 1 show ?case by (subst (asm) show_radix.simps) (auto split: if_splits)
qed

lemma dec_string_not_Nil [simp]: "dec_string n \<noteq> []"
  by (subst show_radix.simps) simp

lemma parse_digits_bound: "parse_digits mx acc s = Some n \<Longrightarrow> acc \<le> mx \<Longrightarrow> n \<le> mx"
  by (induction mx acc s rule: parse_digits.induct) (auto split: option.splits if_splits)

lemma parse_uint_bound: "parse_uint mx s = Some n \<Longrightarrow> n \<le> mx"
  by (auto simp: parse_uint_def parse_digits_bound split: if_splits)

lemma parse_digits_dec_string:
  "n \<le> mx \<Longrightarrow> parse_digits mx 0 (dec_string n @ s) = parse_digits mx n s"
proof (induction "10 :: nat" n arbitrary: s rule: show_radix.induct)
  case (1 n)
  show ?case
  proof (cases "n < 10")
    case True
    with "1.prems" show ?thesis by (subst show_radix.simps) (simp add: digit_val_digit_char)
  next
    case False
    then have "n div 10 * 10 + n mod 10 = n" "n div 10 \<le> mx" using "1.prems" by simp_all
    with False 1 show ?thesis
      by (subst show_radix.simps) (simp add: digit_val_digit_char)
  qed
qed

text \<open>Printing an integer in decimal and parsing it again gives the integer.\<close>

lemma parse_uint_dec_string: "n \<le> mx \<Longrightarrow> parse_uint mx (dec_string n) = Some n"
proof -
  assume n: "n \<le> mx"
  obtain d where "d < 10" "hd (dec_string n) = digit_char d"
    using dec_string_digits [of "hd (dec_string n)" n] by auto
  then have hd: "hd (dec_string n) \<noteq> CHR ''+''" "hd (dec_string n) \<noteq> CHR ''-''"
    by (simp_all add: digit_char_not_sign)
  then have "dec_string n \<noteq> ''+''" "dec_string n \<noteq> ''-''" by auto
  with hd show ?thesis using parse_digits_dec_string [OF n, of "[]"] by (simp add: parse_uint_def)
qed

section \<open>Textual IP addresses\<close>

text \<open>
  The recursive-descent parser of \<open>core::net\<close>: a parser takes the remaining input and
  returns a value with the input that is left, or \<^term>\<open>None\<close> without consuming anything.
\<close>

type_synonym 'a reader = "string \<Rightarrow> ('a \<times> string) option"

definition is_digit :: "nat \<Rightarrow> char \<Rightarrow> bool" where
  "is_digit radix c = (digit_val radix c \<noteq> None)"

definition digits_val :: "nat \<Rightarrow> string \<Rightarrow> nat" where
  "digits_val radix ds = foldl (\<lambda>acc c. acc * radix + the (digit_val radix c)) 0 ds"

definition read_number :: "nat \<Rightarrow> nat \<Rightarrow> bool \<Rightarrow> nat \<Rightarrow> nat reader" where
  "read_number radix max_digits allow_zero_prefix mx s =
     (let ds = takeWhile (is_digit radix) s
      in if ds = [] \<or> max_digits < length ds then None
         else if \<not> allow_zero_prefix \<and> hd ds = CHR ''0'' \<and> 1 < length ds then None
         else if digits_val radix ds \<le> mx then Some (digits_val radix ds, dropWhile (is_digit radix) s)
         else None)"

definition read_separator :: "char \<Rightarrow> nat \<Rightarrow> 'a reader \<Rightarrow> 'a reader" where
  "read_separator c i inner s =
     (if i = 0 then inner s
      else (case s of [] \<Rightarrow> None | x # xs \<Rightarrow> if x = c then inner xs else None))"

fun read_octets :: "nat \<Rightarrow> nat \<Rightarrow> nat list reader" where
  "read_octets i 0 s = Some ([], s)"
| "read_octets i (Suc k) s =
     do { (g, s1) \<leftarrow> read_separator CHR ''.'' i (read_number 10 3 False 255) s;
          (gs, s2) \<leftarrow> read_octets (Suc i) k s1;
          Some (g # gs, s2) }"

definition read_ipv4_addr :: "u8 list reader" where
  "read_ipv4_addr s = map_option (\<lambda>(gs, r). (map of_nat gs, r)) (read_octets 0 4 s)"

definition ipv4_from_str :: "string \<Rightarrow> u8 list option" where
  "ipv4_from_str s =
     (if 15 < length s then None
      else (case read_ipv4_addr s of Some (bs, []) \<Rightarrow> Some bs | _ \<Rightarrow> None))"

text \<open>\<open>read_groups k i\<close> reads up to \<open>k\<close> more 16-bit groups, \<open>i\<close> of them already read; the flag
  says that the groups end with an embedded IPv4 address.\<close>

fun read_groups :: "nat \<Rightarrow> nat \<Rightarrow> string \<Rightarrow> u16 list \<times> bool \<times> string" where
  "read_groups 0 i s = ([], False, s)"
| "read_groups (Suc k) i s =
     (case (if k = 0 then None else read_separator CHR '':'' i read_ipv4_addr s) of
        Some (v4, s1) \<Rightarrow> ([be_word (take 2 v4), be_word (drop 2 v4)], True, s1)
      | None \<Rightarrow>
         (case read_separator CHR '':'' i (read_number 16 4 True 65535) s of
            Some (g, s1) \<Rightarrow> (let (gs, b, s2) = read_groups k (Suc i) s1 in (of_nat g # gs, b, s2))
          | None \<Rightarrow> ([], False, s)))"

definition read_ipv6_addr :: "u16 list reader" where
  "read_ipv6_addr s =
     (let (head, head_ipv4, s1) = read_groups 8 0 s
      in if length head = 8 then Some (head, s1)
         else if head_ipv4 then None
         else if starts_with ''::'' s1
         then (let (tail, _, s2) = read_groups (8 - (length head + 1)) 0 (drop 2 s1)
               in Some (head @ replicate (8 - length head - length tail) 0 @ tail, s2))
         else None)"

definition ipv6_from_str :: "string \<Rightarrow> u8 list option" where
  "ipv6_from_str s =
     (case read_ipv6_addr s of
        Some (gs, []) \<Rightarrow> Some (concat (map to_be_bytes16 gs))
      | _ \<Rightarrow> None)"

definition ipv4_to_string :: "u8 list \<Rightarrow> string" where
  "ipv4_to_string bs = join_with ''.'' (map (\<lambda>b. dec_string (unat b)) bs)"

lemma read_octets_length: "read_octets i k s = Some (gs, r) \<Longrightarrow> length gs = k"
  by (induction i k s arbitrary: gs r rule: read_octets.induct) (auto split: Option.bind_splits prod.splits)

lemma read_ipv4_addr_length: "read_ipv4_addr s = Some (bs, r) \<Longrightarrow> length bs = 4"
  by (auto simp: read_ipv4_addr_def dest: read_octets_length)

lemma ipv4_from_str_length: "ipv4_from_str s = Some bs \<Longrightarrow> length bs = 4"
  by (auto simp: ipv4_from_str_def read_ipv4_addr_length split: if_splits option.splits list.splits)

lemma read_groups_length: "read_groups k i s = (gs, b, r) \<Longrightarrow> length gs \<le> k"
  by (induction k i s arbitrary: gs b r rule: read_groups.induct)
    (auto split: option.splits prod.splits if_splits)

lemma read_ipv6_addr_length:
  assumes "read_ipv6_addr s = Some (gs, r)"
  shows "length gs = 8"
proof -
  obtain head h4 s1 where h: "read_groups 8 0 s = (head, h4, s1)"
    by (metis prod_cases3)
  obtain tl b s2 where t: "read_groups (7 - length head) 0 (drop 2 s1) = (tl, b, s2)"
    by (metis prod_cases3)
  from read_groups_length [OF h] read_groups_length [OF t] assms show ?thesis
    by (auto simp: read_ipv6_addr_def h t split: if_splits)
qed

lemma length_concat_be_bytes16: "length (concat (map to_be_bytes16 gs)) = 2 * length gs"
  by (induction gs) (simp_all add: to_be_bytes16_def)

lemma ipv6_from_str_length: "ipv6_from_str s = Some bs \<Longrightarrow> length bs = 16"
  by (auto simp: ipv6_from_str_def length_concat_be_bytes16 dest!: read_ipv6_addr_length
      split: option.splits prod.splits list.splits)

subsection \<open>Printing and parsing an IPv4 address\<close>

lemma digits_val_snoc: "digits_val r (ds @ [c]) = digits_val r ds * r + the (digit_val r c)"
  by (simp add: digits_val_def)

lemma digits_val_dec_string: "digits_val 10 (dec_string n) = n"
proof (induction "10 :: nat" n rule: show_radix.induct)
  case (1 n)
  show ?case
  proof (cases "n < 10")
    case True
    then show ?thesis
      by (subst show_radix.simps) (simp add: digits_val_def digit_val_digit_char)
  next
    case False
    with 1 show ?thesis
      by (subst show_radix.simps) (simp add: digits_val_snoc digit_val_digit_char)
  qed
qed

lemma dec_string_no_leading_zero: "0 < n \<Longrightarrow> hd (dec_string n) \<noteq> CHR ''0''"
proof (induction "10 :: nat" n rule: show_radix.induct)
  case (1 n)
  show ?case
  proof (cases "n < 10")
    case True
    with "1.prems" show ?thesis
      by (subst show_radix.simps) (auto simp: digit_char_def char_of_eq_iff take_bit_eq_mod)
  next
    case False
    with 1 show ?thesis by (subst show_radix.simps) simp
  qed
qed

lemma length_dec_string: "n < 1000 \<Longrightarrow> length (dec_string n) \<le> 3"
  by (subst show_radix.simps, subst show_radix.simps, subst show_radix.simps) auto

lemma is_digit_dec_string: "c \<in> set (dec_string n) \<Longrightarrow> is_digit 10 c"
  using dec_string_digits [of c n] by (auto simp: is_digit_def digit_val_digit_char)

lemma read_number_dec_string:
  assumes "n \<le> 255" "r = [] \<or> \<not> is_digit 10 (hd r)"
  shows "read_number 10 3 False 255 (dec_string n @ r) = Some (n, r)"
proof -
  have tw: "takeWhile (is_digit 10) (dec_string n @ r) = dec_string n"
    and dw: "dropWhile (is_digit 10) (dec_string n @ r) = r"
    using assms(2) by (cases r; auto simp: is_digit_dec_string takeWhile_append dropWhile_append)+
  have "length (dec_string 0) = 1" by (subst show_radix.simps) simp
  then have "\<not> (hd (dec_string n) = CHR ''0'' \<and> 1 < length (dec_string n))"
    using dec_string_no_leading_zero [of n] by (cases "n = 0") auto
  with assms(1) length_dec_string [of n] show ?thesis
    unfolding read_number_def tw dw by (simp add: digits_val_dec_string Let_def)
qed

lemma is_digit_dot: "\<not> is_digit 10 (CHR ''.'')"
  by (simp add: is_digit_def digit_val_def)

lemma read_separator_0: "read_separator c 0 inner s = inner s"
  by (simp add: read_separator_def)

lemma read_octet_dot:
  "0 < i \<Longrightarrow> n \<le> 255 \<Longrightarrow> r = [] \<or> hd r = CHR ''.'' \<Longrightarrow>
   read_separator CHR ''.'' i (read_number 10 3 False 255) (CHR ''.'' # dec_string n @ r) = Some (n, r)"
  by (auto simp: read_separator_def is_digit_dot intro!: read_number_dec_string)

text \<open>\<open>Ipv4Addr::from_str\<close> inverts \<open>Display\<close>.\<close>

lemma ipv4_from_str_to_string: "length bs = 4 \<Longrightarrow> ipv4_from_str (ipv4_to_string bs) = Some bs"
proof -
  assume "length bs = 4"
  then obtain a b c d where bs: "bs = [a, b, c, d]"
    by (auto simp: numeral_eq_Suc length_Suc_conv)
  have u: "unat w \<le> 255" for w :: u8
    using unsigned_less [of w, where 'a = nat] by simp
  have four: "(4::nat) = Suc (Suc (Suc (Suc 0)))" by simp
  have "length (dec_string (unat w)) \<le> 3" for w :: u8
    using u [of w] by (intro length_dec_string) simp
  from this [of a] this [of b] this [of c] this [of d]
  have len: "length (ipv4_to_string bs) \<le> 15"
    by (simp add: ipv4_to_string_def bs)
  have "read_octets 0 4 (ipv4_to_string bs) = Some ([unat a, unat b, unat c, unat d], [])"
    using read_octet_dot [of _ _ "[]"] read_number_dec_string [OF u]
    by (simp add: four ipv4_to_string_def bs read_octet_dot u
        read_separator_0 is_digit_dot)
  with len show ?thesis
    by (simp add: ipv4_from_str_def read_ipv4_addr_def bs)
qed

section \<open>C strings and UTF-8\<close>

text \<open>\<open>CStr::from_ptr\<close> on a buffer: the bytes before the first NUL.\<close>

definition c_str :: "u8 list \<Rightarrow> u8 list" where
  "c_str buf = takeWhile (\<lambda>b. b \<noteq> 0) buf"

definition in_range :: "u8 \<Rightarrow> u8 \<Rightarrow> u8 \<Rightarrow> bool" where
  "in_range lo hi b \<longleftrightarrow> lo \<le> b \<and> b \<le> hi"

text \<open>The well-formed byte sequences of UTF-8, as \<open>str::from_utf8\<close> accepts them.\<close>

fun utf8_tail3 :: "u8 \<Rightarrow> u8 \<Rightarrow> bool" where
  "utf8_tail3 a b \<longleftrightarrow>
     a = 0xE0 \<and> in_range 0xA0 0xBF b \<or> in_range 0xE1 0xEC a \<and> in_range 0x80 0xBF b \<or>
     a = 0xED \<and> in_range 0x80 0x9F b \<or> in_range 0xEE 0xEF a \<and> in_range 0x80 0xBF b"

fun utf8_tail4 :: "u8 \<Rightarrow> u8 \<Rightarrow> bool" where
  "utf8_tail4 a b \<longleftrightarrow>
     a = 0xF0 \<and> in_range 0x90 0xBF b \<or> in_range 0xF1 0xF3 a \<and> in_range 0x80 0xBF b \<or> a = 0xF4 \<and> in_range 0x80 0x8F b"

fun utf8_valid :: "u8 list \<Rightarrow> bool" where
  "utf8_valid [] \<longleftrightarrow> True"
| "utf8_valid (a # s) \<longleftrightarrow>
     (if a < 0x80 then utf8_valid s
      else case s of
        [] \<Rightarrow> False
      | b # s1 \<Rightarrow>
          if in_range 0xC2 0xDF a then in_range 0x80 0xBF b \<and> utf8_valid s1
          else (case s1 of
            [] \<Rightarrow> False
          | c # s2 \<Rightarrow>
              if in_range 0xE0 0xEF a then utf8_tail3 a b \<and> in_range 0x80 0xBF c \<and> utf8_valid s2
              else (case s2 of
                [] \<Rightarrow> False
              | d # s3 \<Rightarrow> utf8_tail4 a b \<and> in_range 0x80 0xBF c \<and> in_range 0x80 0xBF d \<and> utf8_valid s3)))"

definition str_of_bytes :: "u8 list \<Rightarrow> string" where
  "str_of_bytes bs = map (\<lambda>b. char_of (unat b)) bs"

definition bytes_of_str :: "string \<Rightarrow> u8 list" where
  "bytes_of_str s = map (\<lambda>c. of_char c) s"

lemma str_of_bytes_of_str [simp]: "str_of_bytes (bytes_of_str s) = s"
proof -
  have "char_of (unat (of_char c :: u8)) = c" for c :: char
  proof -
    have "(of_char c :: u8) = of_nat (of_char c)" by (rule of_nat_of_char [symmetric])
    then have "unat (of_char c :: u8) = of_char c mod 256" by (simp only: unat_of_nat) simp
    then show ?thesis by simp
  qed
  then show ?thesis by (simp add: str_of_bytes_def bytes_of_str_def comp_def)
qed

lemma utf8_valid_ascii: "list_all (\<lambda>b. b < 0x80) bs \<Longrightarrow> utf8_valid bs"
  by (induction bs) (simp_all del: utf8_tail3.simps utf8_tail4.simps)

lemma c_str_terminated: "0 \<notin> set bs \<Longrightarrow> c_str (bs @ 0 # rest) = bs"
  by (induction bs) (auto simp: c_str_def)

end
