(* ===== verification/Moat_Common.thy ===== *)
theory Moat_Common
  imports Rust_Std
begin

text \<open>
  The crate moatd-common (\<open>src/crates/moatd-common/src/lib.rs\<close>): the constants and the
  wire-format structs that user space and the eBPF programs share, and the control
  protocol between the command line and the daemon. A \<open>[u8; n]\<close> is a list of bytes
  whose length is part of the well-formedness predicates.
\<close>

section \<open>Constants\<close>

definition SCHEMA_VERSION :: u8 where [moat_consts]: "SCHEMA_VERSION = 1"
definition RULES_MAX :: u32 where [moat_consts]: "RULES_MAX = 256"
definition RULE_BANKS :: u32 where [moat_consts]: "RULE_BANKS = 2"
definition RULES_SLOTS :: u32 where [moat_consts]: "RULES_SLOTS = RULES_MAX * RULE_BANKS"
definition RINGBUF_BYTES :: u32 where [moat_consts]: "RINGBUF_BYTES = 256 * 1024"

definition POLICY_IN :: u32 where [moat_consts]: "POLICY_IN = 0"
definition POLICY_OUT :: u32 where [moat_consts]: "POLICY_OUT = 1"
definition POLICY_FORWARD :: u32 where [moat_consts]: "POLICY_FORWARD = 2"

definition PROTO_ANY :: u8 where [moat_consts]: "PROTO_ANY = 0"
definition PROTO_ICMP :: u8 where [moat_consts]: "PROTO_ICMP = 1"
definition PROTO_TCP :: u8 where [moat_consts]: "PROTO_TCP = 6"
definition PROTO_UDP :: u8 where [moat_consts]: "PROTO_UDP = 17"
definition PROTO_ICMPV6 :: u8 where [moat_consts]: "PROTO_ICMPV6 = 58"

definition DIR_IN :: u8 where [moat_consts]: "DIR_IN = 0"
definition DIR_OUT :: u8 where [moat_consts]: "DIR_OUT = 1"

definition ACT_ALLOW :: u8 where [moat_consts]: "ACT_ALLOW = 0"
definition ACT_DENY :: u8 where [moat_consts]: "ACT_DENY = 1"
definition ACT_REJECT :: u8 where [moat_consts]: "ACT_REJECT = 2"

definition FAMILY_V4 :: u8 where [moat_consts]: "FAMILY_V4 = 4"
definition FAMILY_V6 :: u8 where [moat_consts]: "FAMILY_V6 = 6"

definition IFACE_ANY :: u32 where [moat_consts]: "IFACE_ANY = 0"
text \<open>\<open>u32::MAX\<close>\<close>
definition IFACE_ABSENT :: u32 where [moat_consts]: "IFACE_ABSENT = - 1"

definition CONNTRACK_MAX_ENTRIES :: u32 where [moat_consts]: "CONNTRACK_MAX_ENTRIES = 262144"
definition CONNTRACK_TTL_NS :: u64 where [moat_consts]: "CONNTRACK_TTL_NS = 7200000000000"
definition CONNTRACK_REFRESH_NS :: u64 where [moat_consts]: "CONNTRACK_REFRESH_NS = 10000000000"

definition LOG_BUCKET_MAX :: u32 where [moat_consts]: "LOG_BUCKET_MAX = 100"
definition LOG_BUCKET_REFILL_NS :: u64 where [moat_consts]: "LOG_BUCKET_REFILL_NS = 10000000"
text \<open>\<open>u32::MAX\<close>\<close>
definition RULE_ID_DEFAULT :: u32 where [moat_consts]: "RULE_ID_DEFAULT = - 1"

text \<open>\<open>valid_iface_name\<close>: between 1 and 15 bytes, none of them a slash, a space or NUL.\<close>

definition valid_iface_name :: "string \<Rightarrow> bool" where
  "valid_iface_name name \<longleftrightarrow>
     name \<noteq> [] \<and> length name \<le> 15 \<and>
     \<not> list_ex (\<lambda>b. b = CHR ''/'' \<or> b = CHR '' '' \<or> b = CHR 0x00) name"

section \<open>Wire-format structs\<close>

record ip_cidr =
  c_family :: u8
  c_prefix :: u8
  c_pad :: "u8 list"
  c_addr :: "u8 list"

definition any_v4 :: ip_cidr where
  "any_v4 = \<lparr>c_family = FAMILY_V4, c_prefix = 0, c_pad = replicate 2 0, c_addr = replicate 16 0\<rparr>"

definition any_v6 :: ip_cidr where
  "any_v6 = \<lparr>c_family = FAMILY_V6, c_prefix = 0, c_pad = replicate 2 0, c_addr = replicate 16 0\<rparr>"

record rule =
  r_version :: u8
  r_direction :: u8
  r_action :: u8
  r_proto :: u8
  r_iface_ifindex :: u32
  r_src :: ip_cidr
  r_dst :: ip_cidr
  r_src_port_min :: u16
  r_src_port_max :: u16
  r_dst_port_min :: u16
  r_dst_port_max :: u16
  r_enabled :: u8
  r_pad :: "u8 list"

definition rule_empty :: rule where
  "rule_empty =
     \<lparr>r_version = SCHEMA_VERSION, r_direction = DIR_IN, r_action = ACT_ALLOW, r_proto = PROTO_ANY,
      r_iface_ifindex = IFACE_ANY, r_src = any_v4, r_dst = any_v4,
      r_src_port_min = 0, r_src_port_max = 0, r_dst_port_min = 0, r_dst_port_max = 0,
      r_enabled = 0, r_pad = replicate 3 0\<rparr>"

record drop_event =
  e_ts_ns :: u64
  e_ifindex :: u32
  e_rule_id :: u32
  e_src :: "u8 list"
  e_dst :: "u8 list"
  e_src_port :: u16
  e_dst_port :: u16
  e_proto :: u8
  e_family :: u8
  e_tcp_flags :: u8
  e_pad :: u8

record global_config =
  g_logging_enabled :: u8
  g_log_level :: u8
  g_active_bank :: u8
  g_conntrack_enabled :: u8
  g_rule_count :: u16
  g_pad2 :: u16

record conn_key =
  k_proto :: u8
  k_family :: u8
  k_pad :: "u8 list"
  k_src_addr :: "u8 list"
  k_dst_addr :: "u8 list"
  k_src_port :: u16
  k_dst_port :: u16

record conn_val =
  last_seen_ns :: u64

record log_tokens =
  tokens :: u32
  t_pad :: "u8 list"
  last_refill_ns :: u64

section \<open>The control protocol\<close>

datatype direction = In | Out

datatype action = Allow | Deny | Reject

datatype protocol = Tcp | Udp | Icmp | Any

record user_rule =
  u_direction :: direction
  u_action :: action
  u_iface :: "string option"
  u_proto :: "protocol option"
  u_src :: "string option"
  u_dst :: "string option"
  u_src_port :: "string option"
  u_dst_port :: "string option"

datatype request =
    Req_Ping
  | Req_Status
  | Req_ListRules
  | Req_AddRule user_rule
  | Req_DeleteRule u32
  | Req_SetDefault direction action
  | Req_SetLogging bool
  | Req_Reset

record status_report =
  s_active :: bool
  s_attached_interfaces :: "string list"
  s_rules :: u32
  s_schema_version :: u8
  s_default_in :: action
  s_default_out :: action
  s_logging_enabled :: bool

text \<open>The errors the sources report, one constructor per message; a response carries the
  error itself where the code sends its text.\<close>

datatype spec_err =
    Empty_rule_spec
  | No_ports string
  | Specified_twice string
  | Expected string
  | Unexpected_token string
  | Unknown_protocol string
  | Default_usage
  | Unknown_action string
  | Unknown_direction string

datatype wire_err =
    Icmp_with_port
  | Family_mismatch
  | Invalid_prefix
  | Prefix_out_of_range
  | Invalid_ip string
  | Port_range_start
  | Port_range_end
  | Invalid_port_range string
  | Invalid_port
  | Port_zero

datatype err =
    Spec_err spec_err
  | Wire_err wire_err
  | Invalid_iface string
  | Rule_limit
  | Index_one_based
  | No_rule_at u32
  | Io_error string
  | Serde_error string
  | Map_error string
  | Frame_too_large nat
  | Daemon_error err
  | Unexpected_response
  | Cli_usage string

datatype response =
    Resp_Pong
  | Resp_Ok
  | Resp_Status status_report
  | Resp_Rules "user_rule list"
  | Resp_Err err

section \<open>Well-formed values\<close>

definition wf_cidr :: "ip_cidr \<Rightarrow> bool" where
  "wf_cidr c \<longleftrightarrow> length (c_addr c) = 16 \<and> length (c_pad c) = 2 \<and>
     (c_family c = FAMILY_V4 \<and> c_prefix c \<le> 32 \<or> c_family c = FAMILY_V6 \<and> c_prefix c \<le> 128)"

definition wf_ports :: "u16 \<Rightarrow> u16 \<Rightarrow> bool" where
  "wf_ports lo hi \<longleftrightarrow> lo = 0 \<and> hi = 0 \<or> 0 < lo \<and> lo \<le> hi"

text \<open>A rule as the loader writes it: known schema, direction and action, both prefixes of
  one family and in range, each port range empty or ordered and free of port 0.\<close>

definition wf_rule :: "rule \<Rightarrow> bool" where
  "wf_rule r \<longleftrightarrow>
     r_version r = SCHEMA_VERSION \<and> r_enabled r = 1 \<and> r_pad r = replicate 3 0 \<and>
     r_direction r \<in> {DIR_IN, DIR_OUT} \<and>
     r_action r \<in> {ACT_ALLOW, ACT_DENY, ACT_REJECT} \<and>
     r_proto r \<in> {PROTO_ANY, PROTO_ICMP, PROTO_TCP, PROTO_UDP} \<and>
     wf_cidr (r_src r) \<and> wf_cidr (r_dst r) \<and> c_family (r_src r) = c_family (r_dst r) \<and>
     wf_ports (r_src_port_min r) (r_src_port_max r) \<and>
     wf_ports (r_dst_port_min r) (r_dst_port_max r)"

lemma wf_any_cidr [simp]: "wf_cidr any_v4" "wf_cidr any_v6"
  by (simp_all add: wf_cidr_def any_v4_def any_v6_def)

end
