(* ===== verification/Cidr.thy ===== *)
theory Cidr
  imports Moat_Common
begin

text \<open>
  CIDR matching of the data path (\<open>cidr_contains\<close> and its two word-parallel versions,
  \<open>src/crates/moatd-ebpf/src/main.rs\<close>) and its reference meaning: the first \<open>prefix\<close> bits
  of the two addresses, in network order, are the same.
\<close>

section \<open>The routines of the data path\<close>

definition be64 :: "u8 list \<Rightarrow> nat \<Rightarrow> u64" where
  "be64 b lo = be_word [b ! lo, b ! (lo + 1), b ! (lo + 2), b ! (lo + 3),
                        b ! (lo + 4), b ! (lo + 5), b ! (lo + 6), b ! (lo + 7)]"

definition cidr_contains_v4 :: "ip_cidr \<Rightarrow> u8 list \<Rightarrow> bool" where
  "cidr_contains_v4 cidr addr =
     (let pfx = ucast (c_prefix cidr) :: u32
      in if pfx = 0 then True
         else if pfx > 32 then False
         else
           let cidr_word = be_word [c_addr cidr ! 0, c_addr cidr ! 1, c_addr cidr ! 2, c_addr cidr ! 3] :: u32;
               addr_word = be_word [addr ! 0, addr ! 1, addr ! 2, addr ! 3] :: u32;
               m = (if pfx \<ge> 32 then - 1 else push_bit (unat (32 - pfx)) (- 1))
           in (cidr_word AND m) = (addr_word AND m))"

definition cidr_contains_v6 :: "ip_cidr \<Rightarrow> u8 list \<Rightarrow> bool" where
  "cidr_contains_v6 cidr addr =
     (let pfx = ucast (c_prefix cidr) :: u32
      in if pfx = 0 then True
         else if pfx > 128 then False
         else
           let c_hi = be64 (c_addr cidr) 0; c_lo = be64 (c_addr cidr) 8;
               a_hi = be64 addr 0; a_lo = be64 addr 8
           in if pfx \<le> 64 then
                let m = (if pfx = 64 then - 1 else push_bit (unat (64 - pfx)) (- 1))
                in (c_hi AND m) = (a_hi AND m)
              else if c_hi \<noteq> a_hi then False
              else
                let rem = pfx - 64;
                    m = (if rem \<ge> 64 then - 1 else push_bit (unat (64 - rem)) (- 1))
                in (c_lo AND m) = (a_lo AND m))"

definition cidr_contains :: "ip_cidr \<Rightarrow> u8 list \<Rightarrow> u8 \<Rightarrow> bool" where
  "cidr_contains cidr addr family =
     (if c_prefix cidr = 0 then True
      else if c_family cidr \<noteq> family then False
      else if family = FAMILY_V4 then cidr_contains_v4 cidr addr
      else cidr_contains_v6 cidr addr)"

section \<open>The reference meaning: equal leading bits\<close>

definition addr_bit :: "u8 list \<Rightarrow> nat \<Rightarrow> bool" where
  "addr_bit bs j = bit (bs ! (j div 8)) (7 - j mod 8)"

definition same_prefix :: "nat \<Rightarrow> u8 list \<Rightarrow> u8 list \<Rightarrow> bool" where
  "same_prefix n as bs \<longleftrightarrow> (\<forall>j<n. addr_bit as j = addr_bit bs j)"

lemma same_prefix_refl [simp]: "same_prefix n as as"
  by (simp add: same_prefix_def)

lemma same_prefix_sym: "same_prefix n as bs \<longleftrightarrow> same_prefix n bs as"
  by (auto simp: same_prefix_def)

lemma same_prefix_mono: "same_prefix n as bs \<Longrightarrow> m \<le> n \<Longrightarrow> same_prefix m as bs"
  by (simp add: same_prefix_def)

lemma same_prefix_trans: "same_prefix n as bs \<Longrightarrow> same_prefix n bs cs \<Longrightarrow> same_prefix n as cs"
  by (simp add: same_prefix_def)

lemma same_prefix_0 [simp]: "same_prefix 0 as bs"
  by (simp add: same_prefix_def)

section \<open>Masked word comparison is comparison of leading bits\<close>

lemma masked_eq_iff:
  fixes v w :: "'a::len word"
  assumes "p \<le> LENGTH('a)"
  shows "(v AND push_bit (LENGTH('a) - p) (- 1)) = (w AND push_bit (LENGTH('a) - p) (- 1)) \<longleftrightarrow>
    (\<forall>j<p. bit v (LENGTH('a) - 1 - j) = bit w (LENGTH('a) - 1 - j))" (is "?l \<longleftrightarrow> ?r")
proof
  assume l: ?l
  show ?r
  proof (intro allI impI)
    fix j assume "j < p"
    with assms have "LENGTH('a) - p \<le> LENGTH('a) - 1 - j" "LENGTH('a) - 1 - j < LENGTH('a)" by auto
    with arg_cong [OF l, of "\<lambda>x. bit x (LENGTH('a) - 1 - j)"]
    show "bit v (LENGTH('a) - 1 - j) = bit w (LENGTH('a) - 1 - j)"
      by (simp add: bit_simps)
  qed
next
  assume r: ?r
  show ?l
  proof (rule bit_word_eqI)
    fix i assume i: "i < LENGTH('a)"
    show "bit (v AND push_bit (LENGTH('a) - p) (- 1)) i = bit (w AND push_bit (LENGTH('a) - p) (- 1)) i"
    proof (cases "LENGTH('a) - p \<le> i")
      case True
      with i have "LENGTH('a) - 1 - i < p" by auto
      with r have "bit v (LENGTH('a) - 1 - (LENGTH('a) - 1 - i)) = bit w (LENGTH('a) - 1 - (LENGTH('a) - 1 - i))"
        by blast
      with i show ?thesis by (simp add: bit_simps)
    next
      case False
      then show ?thesis by (simp add: bit_simps)
    qed
  qed
qed

lemma bit_be_word_addr_bit:
  assumes "8 * length bs = LENGTH('a)" "j < LENGTH('a)"
  shows "bit (be_word bs :: 'a::len word) (LENGTH('a) - 1 - j) = addr_bit bs j"
proof -
  define n where "n = length bs"
  have j: "j < 8 * n" using assms by (simp add: n_def)
  have q: "j div 8 < n" using j by (simp add: less_mult_imp_div_less mult.commute)
  have "8 * n - 1 - j = 8 * (n - 1 - j div 8) + (7 - j mod 8)"
    using q div_mult_mod_eq [of j 8] mod_less_divisor [of 8 j] by (simp add: diff_mult_distrib2)
  moreover have "(8 * k + r) div 8 = k" "(8 * k + r) mod 8 = r" if "r < 8" for k r :: nat
    using that by simp_all
  moreover have "7 - j mod 8 < 8" by linarith
  ultimately have d: "(8 * n - 1 - j) div 8 = n - 1 - j div 8" and m: "(8 * n - 1 - j) mod 8 = 7 - j mod 8"
    by presburger+
  have e: "n - 1 - (n - 1 - j div 8) = j div 8" using q by linarith
  have "bit (be_word bs :: 'a word) (8 * n - 1 - j) =
      (8 * n - 1 - j < 8 * n \<and> bit (bs ! (n - 1 - (8 * n - 1 - j) div 8)) ((8 * n - 1 - j) mod 8))"
    unfolding n_def using assms(1) by (rule bit_be_word [OF eq_imp_le])
  also have "\<dots> = addr_bit bs j"
    unfolding d m e addr_bit_def using j by simp
  finally show ?thesis using assms(1) by (simp add: n_def)
qed

lemma be_word_masked_eq_iff:
  assumes "8 * length as = LENGTH('a)" "8 * length bs = LENGTH('a)" "p \<le> LENGTH('a)"
  shows "(be_word as AND push_bit (LENGTH('a) - p) (- 1)) =
           (be_word bs AND push_bit (LENGTH('a) - p) (- 1) :: 'a::len word) \<longleftrightarrow> same_prefix p as bs"
proof -
  have "bit (be_word cs :: 'a word) (LENGTH('a) - 1 - j) = addr_bit cs j"
    if "8 * length cs = LENGTH('a)" "j < p" for cs j
    using that assms(3) by (intro bit_be_word_addr_bit) auto
  then show ?thesis
    using assms by (subst masked_eq_iff) (auto simp: same_prefix_def)
qed

lemma be_word_eq_iff:
  assumes "8 * length as = LENGTH('a)" "8 * length bs = LENGTH('a)"
  shows "(be_word as :: 'a::len word) = be_word bs \<longleftrightarrow> same_prefix LENGTH('a) as bs"
  using be_word_masked_eq_iff [OF assms, of "LENGTH('a)"] by simp

lemma nths4: "length as = 16 \<Longrightarrow> [as ! 0, as ! 1, as ! 2, as ! 3] = take 4 as"
  by (intro nth_equalityI) (auto simp: less_Suc_eq numeral_eq_Suc)

lemma same_prefix_take: "n \<le> 8 * k \<Longrightarrow> same_prefix n (take k as) (take k bs) \<longleftrightarrow> same_prefix n as bs"
  by (auto simp: same_prefix_def addr_bit_def less_mult_imp_div_less mult.commute)

lemma addr_bit_drop8: "length as = 16 \<Longrightarrow> addr_bit (drop 8 as) j = addr_bit as (64 + j)"
proof -
  have "(64 + j) div 8 = 8 + j div 8" "(64 + j) mod 8 = j mod 8" by presburger+
  then show "length as = 16 \<Longrightarrow> addr_bit (drop 8 as) j = addr_bit as (64 + j)"
    by (simp add: addr_bit_def)
qed

lemma same_prefix_split64:
  assumes "length as = 16" "length bs = 16"
  shows "same_prefix (64 + n) as bs \<longleftrightarrow> same_prefix 64 as bs \<and> same_prefix n (drop 8 as) (drop 8 bs)"
proof -
  have "(\<forall>j<64 + n. P j) \<longleftrightarrow> (\<forall>j<64. P j) \<and> (\<forall>j<n. P (64 + j))" for P :: "nat \<Rightarrow> bool"
  proof (intro iffI conjI allI impI)
    fix j assume h: "(\<forall>j<64. P j) \<and> (\<forall>j<n. P (64 + j))" and j: "j < 64 + n"
    show "P j"
    proof (cases "j < 64")
      case False
      with j have "j - 64 < n" "64 + (j - 64) = j" by linarith+
      with h show ?thesis by metis
    qed (use h in auto)
  qed auto
  with assms show ?thesis
    by (simp add: same_prefix_def addr_bit_drop8)
qed

lemma be64_take: "length as = 16 \<Longrightarrow> be64 as 0 = be_word (take 8 as)"
  unfolding be64_def by (rule arg_cong [of _ _ be_word], intro nth_equalityI)
    (auto simp: less_Suc_eq numeral_eq_Suc)

lemma be64_drop: "length as = 16 \<Longrightarrow> be64 as 8 = be_word (drop 8 as)"
  unfolding be64_def by (rule arg_cong [of _ _ be_word], intro nth_equalityI)
    (auto simp: less_Suc_eq numeral_eq_Suc)

section \<open>The contract of a prefix matcher\<close>

text \<open>
  What both word-parallel routines promise, for addresses of \<open>width\<close> bits kept in 16 bytes,
  and what follows from it for any rule set: a network contains its own base address, a
  shorter prefix of the same base contains more, and two networks are nested or disjoint.
\<close>

locale prefix_matcher =
  fixes contains :: "ip_cidr \<Rightarrow> u8 list \<Rightarrow> bool"
    and width :: nat
  assumes contains_iff: "length (c_addr c) = 16 \<Longrightarrow> length a = 16 \<Longrightarrow>
      contains c a \<longleftrightarrow> unat (c_prefix c) \<le> width \<and> same_prefix (unat (c_prefix c)) (c_addr c) a"
begin

lemma contains_base: "length (c_addr c) = 16 \<Longrightarrow> unat (c_prefix c) \<le> width \<Longrightarrow> contains c (c_addr c)"
  by (simp add: contains_iff)

lemma contains_shorter:
  "length (c_addr c) = 16 \<Longrightarrow> length a = 16 \<Longrightarrow> p \<le> c_prefix c \<Longrightarrow>
   contains c a \<Longrightarrow> contains (c\<lparr>c_prefix := p\<rparr>) a"
  by (auto simp: contains_iff word_le_nat_alt elim: same_prefix_mono)

lemma nested_or_disjoint:
  assumes "length (c_addr c) = 16" "length (c_addr d) = 16" "length a = 16"
    and "c_prefix c \<le> c_prefix d" "contains c a" "contains d a" "length b = 16" "contains d b"
  shows "contains c b"
proof -
  let ?p = "unat (c_prefix c)"
  have "same_prefix ?p (c_addr c) a" "same_prefix ?p (c_addr d) a" "same_prefix ?p (c_addr d) b"
    using assms by (auto simp: contains_iff word_le_nat_alt elim: same_prefix_mono)
  then have "same_prefix ?p (c_addr c) b"
    by (meson same_prefix_sym same_prefix_trans)
  with assms show ?thesis by (simp add: contains_iff)
qed

end

lemma unat_prefix: "unat (ucast (b :: u8) :: u32) = unat b"
  by (simp add: unsigned_ucast_eq take_bit_nat_eq_self_iff order.strict_trans [OF unsigned_less])

interpretation v4: prefix_matcher cidr_contains_v4 32
proof
  fix c :: ip_cidr and a :: "u8 list"
  assume len: "length (c_addr c) = 16" "length a = 16"
  define p where "p = unat (c_prefix c)"
  show "cidr_contains_v4 c a \<longleftrightarrow> unat (c_prefix c) \<le> 32 \<and> same_prefix (unat (c_prefix c)) (c_addr c) a"
  proof (cases "p = 0 \<or> p > 32")
    case True
    then show ?thesis
      by (auto simp: cidr_contains_v4_def unat_prefix p_def word_less_nat_alt unat_eq_0 Let_def
          simp flip: unat_eq_0)
  next
    case False
    then have p: "0 < p" "p \<le> 32" by auto
    let ?m = "push_bit (32 - p) (- 1) :: u32"
    have "(if (ucast (c_prefix c) :: u32) \<ge> 32 then - 1
           else push_bit (unat (32 - ucast (c_prefix c) :: u32)) (- 1)) = ?m"
      using p by (auto simp: word_le_nat_alt unat_prefix p_def unat_minus_exact)
    then have "cidr_contains_v4 c a \<longleftrightarrow>
        (be_word (take 4 (c_addr c)) AND ?m) = (be_word (take 4 a) AND ?m)"
      using p unfolding cidr_contains_v4_def Let_def nths4 [OF len(1)] nths4 [OF len(2)]
      by (auto simp: unat_prefix p_def word_less_nat_alt simp flip: unat_eq_0)
    also have "\<dots> \<longleftrightarrow> same_prefix p (take 4 (c_addr c)) (take 4 a)"
      using be_word_masked_eq_iff [where 'a = 32, of "take 4 (c_addr c)" "take 4 a" p] p len
      by simp
    finally show ?thesis using p by (simp add: same_prefix_take p_def)
  qed
qed

lemma mask_of_prefix:
  assumes "0 < p" "p \<le> 64" "unat (q :: u32) = p"
  shows "(if q \<ge> 64 then - 1 else push_bit (unat (64 - q)) (- 1)) = (push_bit (64 - p) (- 1) :: u64)"
  using assms by (auto simp: word_le_nat_alt unat_minus_exact)

lemma be64_masked_eq_iff:
  assumes "length as = 16" "length bs = 16" "p \<le> 64"
  shows "(be64 as 0 AND push_bit (64 - p) (- 1)) = (be64 bs 0 AND push_bit (64 - p) (- 1)) \<longleftrightarrow>
      same_prefix p as bs"
    and "(be64 as 8 AND push_bit (64 - p) (- 1)) = (be64 bs 8 AND push_bit (64 - p) (- 1)) \<longleftrightarrow>
      same_prefix p (drop 8 as) (drop 8 bs)"
    and "be64 as 0 = be64 bs 0 \<longleftrightarrow> same_prefix 64 as bs"
  using assms be_word_masked_eq_iff [where 'a = 64, of "take 8 as" "take 8 bs" p]
    be_word_masked_eq_iff [where 'a = 64, of "drop 8 as" "drop 8 bs" p]
    be_word_eq_iff [where 'a = 64, of "take 8 as" "take 8 bs"]
  by (simp_all add: be64_take be64_drop same_prefix_take)

interpretation v6: prefix_matcher cidr_contains_v6 128
proof
  fix c :: ip_cidr and a :: "u8 list"
  assume len: "length (c_addr c) = 16" "length a = 16"
  define p where "p = unat (c_prefix c)"
  define q where "q = (ucast (c_prefix c) :: u32)"
  have up: "unat q = p" by (simp add: q_def p_def unat_prefix)
  consider "p = 0 \<or> p > 128" | "0 < p" "p \<le> 64" | "64 < p" "p \<le> 128" by linarith
  then show "cidr_contains_v6 c a \<longleftrightarrow> unat (c_prefix c) \<le> 128 \<and> same_prefix (unat (c_prefix c)) (c_addr c) a"
  proof cases
    case 1
    then have "q = 0 \<and> p = 0 \<or> q \<noteq> 0 \<and> 128 < q \<and> 128 < p"
      using up by (auto simp: word_less_nat_alt simp flip: unat_eq_0)
    then show ?thesis
      unfolding cidr_contains_v6_def q_def [symmetric] p_def [symmetric] Let_def by auto
  next
    case 2
    have "q \<noteq> 0" "\<not> 128 < q" "q \<le> 64" using 2 up by (auto simp: word_less_nat_alt word_le_nat_alt)
    moreover have "(if q = 64 then - 1 else push_bit (unat (64 - q)) (- 1)) = (push_bit (64 - p) (- 1) :: u64)"
      using mask_of_prefix [OF 2 up] \<open>q \<le> 64\<close> by (auto split: if_splits)
    ultimately show ?thesis
      unfolding cidr_contains_v6_def q_def [symmetric] p_def [symmetric] Let_def
      using be64_masked_eq_iff(1) [OF len 2(2)] 2 by (simp only: if_False if_True) auto
  next
    case 3
    have q: "q \<noteq> 0" "\<not> 128 < q" "\<not> q \<le> 64" using 3 up by (auto simp: word_less_nat_alt word_le_nat_alt)
    have "unat (q - 64) = p - 64" using q(3) up by (subst unat_minus_exact) auto
    with 3 have m: "(if q - 64 \<ge> 64 then - 1 else push_bit (unat (64 - (q - 64))) (- 1)) =
        (push_bit (64 - (p - 64)) (- 1) :: u64)"
      by (intro mask_of_prefix) auto
    have "same_prefix p (c_addr c) a \<longleftrightarrow>
        same_prefix 64 (c_addr c) a \<and> same_prefix (p - 64) (drop 8 (c_addr c)) (drop 8 a)"
      using same_prefix_split64 [OF len, of "p - 64"] 3 by simp
    with 3 show ?thesis
      unfolding cidr_contains_v6_def q_def [symmetric] p_def [symmetric] Let_def m
      using be64_masked_eq_iff(2,3) [OF len, of "p - 64"] q by (simp only: if_False if_True) auto
  qed
qed

lemma cidr_contains_same_prefix:
  assumes "length (c_addr c) = 16" "length a = 16"
  shows "cidr_contains c a fam \<longleftrightarrow>
    c_prefix c = 0 \<or>
    c_family c = fam \<and> unat (c_prefix c) \<le> (if fam = FAMILY_V4 then 32 else 128) \<and>
    same_prefix (unat (c_prefix c)) (c_addr c) a"
  using v4.contains_iff [OF assms] v6.contains_iff [OF assms] by (simp add: cidr_contains_def)

section \<open>Properties\<close>

text \<open>
  Property C16. The word-parallel CIDR test of the data path decides prefix equality: prefix 0
  matches every address of every family; otherwise the family must be the packet's, the
  prefix length must be one of that family, and the leading bits must agree, for every
  prefix length (the shifts never overflow, across the 64-bit word boundary too).
\<close>

theorem cidr_contains_is_prefix_equality:
  assumes "length (c_addr c) = 16" and "length a = 16"
  shows "cidr_contains c a fam \<longleftrightarrow>
    c_prefix c = 0 \<or>
    c_family c = fam \<and> unat (c_prefix c) \<le> (if fam = FAMILY_V4 then 32 else 128) \<and>
    same_prefix (unat (c_prefix c)) (c_addr c) a"
  using assms by (rule cidr_contains_same_prefix)

theorem cidr_contains_is_prefix_equality_witness:
  "cidr_contains \<lparr>c_family = FAMILY_V6, c_prefix = 129, c_pad = [0, 0], c_addr = replicate 16 7\<rparr> (replicate 16 7) FAMILY_V6 \<longleftrightarrow> False"
  using cidr_contains_is_prefix_equality
    [of "\<lparr>c_family = FAMILY_V6, c_prefix = 129, c_pad = [0, 0], c_addr = replicate 16 7\<rparr>" "replicate 16 7" FAMILY_V6]
  by (simp add: moat_consts)

text \<open>
  Networks of one family form a hierarchy: if two networks share an address, the
  one with the longer prefix lies inside the other, so an address list of rules can only
  nest or be disjoint.
\<close>

theorem cidr_nested_or_disjoint:
  assumes "wf_cidr c" and "wf_cidr d" and "c_family c = c_family d" and "c_prefix c \<le> c_prefix d"
    and "length a = 16" and "length b = 16"
    and "cidr_contains c a (c_family c)" and "cidr_contains d a (c_family c)"
    and "cidr_contains d b (c_family c)"
  shows "cidr_contains c b (c_family c)"
proof -
  have len: "length (c_addr c) = 16" "length (c_addr d) = 16" using assms(1,2) by (simp_all add: wf_cidr_def)
  have *: "cidr_contains x y (c_family x) =
      (if c_family x = FAMILY_V4 then cidr_contains_v4 x y else cidr_contains_v6 x y)" for x y
    by (simp add: cidr_contains_def cidr_contains_v4_def cidr_contains_v6_def)
  show ?thesis
    using v4.nested_or_disjoint [OF len assms(5,4) _ _ assms(6)] v6.nested_or_disjoint [OF len assms(5,4) _ _ assms(6)]
      assms(7-9) by (auto simp: * [of c] * [of d, folded assms(3)] split: if_splits)
qed

theorem cidr_nested_or_disjoint_witness:
  "cidr_contains \<lparr>c_family = FAMILY_V4, c_prefix = 8, c_pad = [0, 0], c_addr = [10] @ replicate 15 0\<rparr>
     ([10, 1, 2, 3] @ replicate 12 0) FAMILY_V4"
  using cidr_nested_or_disjoint
    [of "\<lparr>c_family = FAMILY_V4, c_prefix = 8, c_pad = [0, 0], c_addr = [10] @ replicate 15 0\<rparr>"
        "\<lparr>c_family = FAMILY_V4, c_prefix = 16, c_pad = [0, 0], c_addr = [10, 1] @ replicate 14 0\<rparr>"
        "[10, 1] @ replicate 14 0" "[10, 1, 2, 3] @ replicate 12 0"]
  by (simp add: wf_cidr_def moat_consts cidr_contains_def cidr_contains_v4_def be_word_def Let_def mask_numeral)

end
