(* ===== verification/Packet.thy ===== *)
theory Packet
  imports Cidr
begin

text \<open>
  The packet parser of the eBPF programs (\<open>parse_packet\<close> and what it calls,
  \<open>src/crates/moatd-ebpf/src/main.rs\<close>). A packet is what the kernel hands to the program:
  a memory and the two addresses \<open>data\<close> and \<open>data_end\<close>; every access goes through
  \<open>ptr_at_data\<close>. \<open>Result<T, ()>\<close> is an option, \<^term>\<open>None\<close> the error.

  The second half gives a reference parser on byte lists and shows that the two agree on
  every memory; that the program reads only the bytes between \<open>data\<close> and \<open>data_end\<close>,
  that VLAN tags and extension headers hide nothing, and the well-formedness of the
  result follow from it.
\<close>

section \<open>Memory and the header types of the crate network-types\<close>

type_synonym mem = "usize \<Rightarrow> u8"

definition read_bytes :: "mem \<Rightarrow> usize \<Rightarrow> nat \<Rightarrow> u8 list" where
  "read_bytes m p n = map (\<lambda>i. m (p + of_nat i)) [0..<n]"

text \<open>\<open>read_unaligned\<close> of a \<open>u16\<close> on the little-endian target.\<close>

definition read_u16 :: "mem \<Rightarrow> usize \<Rightarrow> u16" where
  "read_u16 m p = le_word (read_bytes m p 2)"

text \<open>
  The sizes and field reads of \<open>EthHdr\<close>, \<open>Ipv4Hdr\<close> and \<open>Ipv6Hdr\<close> are third-party code, so
  they are a parameter of the parser; \<open>rfc_headers\<close> states what their documentation says,
  that the structs have the layout of the protocol headers.
\<close>

record headers =
  eth_hdr_len :: usize
  ipv4_hdr_size :: usize
  ipv4_src_addr :: "mem \<Rightarrow> usize \<Rightarrow> u32"
  ipv4_dst_addr :: "mem \<Rightarrow> usize \<Rightarrow> u32"
  ipv4_proto :: "mem \<Rightarrow> usize \<Rightarrow> u8"
  ipv4_frag_off :: "mem \<Rightarrow> usize \<Rightarrow> u16"
  ipv4_ihl :: "mem \<Rightarrow> usize \<Rightarrow> u8"
  ipv6_hdr_size :: usize
  ipv6_next_hdr :: "mem \<Rightarrow> usize \<Rightarrow> u8"
  ipv6_src_addr :: "mem \<Rightarrow> usize \<Rightarrow> u8 list"
  ipv6_dst_addr :: "mem \<Rightarrow> usize \<Rightarrow> u8 list"

definition rfc_layout :: headers where
  "rfc_layout =
     \<lparr>eth_hdr_len = 14,
      ipv4_hdr_size = 20,
      ipv4_src_addr = (\<lambda>m p. le_word (read_bytes m (p + 12) 4)),
      ipv4_dst_addr = (\<lambda>m p. le_word (read_bytes m (p + 16) 4)),
      ipv4_proto = (\<lambda>m p. m (p + 9)),
      ipv4_frag_off = (\<lambda>m p. read_u16 m (p + 6)),
      ipv4_ihl = (\<lambda>m p. m p AND 15),
      ipv6_hdr_size = 40,
      ipv6_next_hdr = (\<lambda>m p. m (p + 6)),
      ipv6_src_addr = (\<lambda>m p. read_bytes m (p + 8) 16),
      ipv6_dst_addr = (\<lambda>m p. read_bytes m (p + 24) 16)\<rparr>"

definition rfc_headers :: "headers \<Rightarrow> bool" where
  "rfc_headers H \<longleftrightarrow>
     eth_hdr_len H = 14 \<and> ipv4_hdr_size H = 20 \<and> ipv6_hdr_size H = 40 \<and>
     (\<forall>m p. ipv4_src_addr H m p = le_word (read_bytes m (p + 12) 4) \<and>
            ipv4_dst_addr H m p = le_word (read_bytes m (p + 16) 4) \<and>
            ipv4_proto H m p = m (p + 9) \<and>
            ipv4_frag_off H m p = read_u16 m (p + 6) \<and>
            ipv4_ihl H m p = m p AND 15 \<and>
            ipv6_next_hdr H m p = m (p + 6) \<and>
            ipv6_src_addr H m p = read_bytes m (p + 8) 16 \<and>
            ipv6_dst_addr H m p = read_bytes m (p + 24) 16)"

lemma rfc_headers_layout [simp]: "rfc_headers rfc_layout"
  by (simp add: rfc_headers_def rfc_layout_def)

section \<open>The parser\<close>

record parsed =
  p_family :: u8
  p_proto_byte :: u8
  p_icmp_type :: u8
  p_src_addr :: "u8 list"
  p_dst_addr :: "u8 list"
  p_src_port :: u16
  p_dst_port :: u16

definition ICMPV6_RS :: u8 where [moat_consts]: "ICMPV6_RS = 133"
definition ICMPV6_RA :: u8 where [moat_consts]: "ICMPV6_RA = 134"
definition ICMPV6_NS :: u8 where [moat_consts]: "ICMPV6_NS = 135"
definition ICMPV6_NA :: u8 where [moat_consts]: "ICMPV6_NA = 136"
definition ICMPV6_REDIRECT :: u8 where [moat_consts]: "ICMPV6_REDIRECT = 137"

definition NH_HOPOPT :: u8 where [moat_consts]: "NH_HOPOPT = 0"
definition NH_ROUTING :: u8 where [moat_consts]: "NH_ROUTING = 43"
definition NH_FRAGMENT :: u8 where [moat_consts]: "NH_FRAGMENT = 44"
definition NH_DSTOPTS :: u8 where [moat_consts]: "NH_DSTOPTS = 60"
definition NH_MOBILITY :: u8 where [moat_consts]: "NH_MOBILITY = 135"
definition MAX_V6_EXT_HDRS :: nat where [moat_consts]: "MAX_V6_EXT_HDRS = 4"
definition MAX_V6_EXT_BYTES :: usize where [moat_consts]: "MAX_V6_EXT_BYTES = 64"

definition ETH_P_IP :: u16 where [moat_consts]: "ETH_P_IP = 0x0800"
definition ETH_P_IPV6 :: u16 where [moat_consts]: "ETH_P_IPV6 = 0x86dd"
definition ETH_P_8021Q :: u16 where [moat_consts]: "ETH_P_8021Q = 0x8100"
definition ETH_P_8021AD :: u16 where [moat_consts]: "ETH_P_8021AD = 0x88a8"

text \<open>The bounds check of every access; \<open>size\<close> is \<open>mem::size_of::<T>()\<close>.\<close>

definition ptr_at_data :: "usize \<Rightarrow> usize \<Rightarrow> usize \<Rightarrow> usize \<Rightarrow> usize option" where
  "ptr_at_data data data_end offset sz =
     do { x \<leftarrow> checked_add data offset;
          e \<leftarrow> checked_add x sz;
          if e > data_end then None else Some (data + offset) }"

definition ethertype_at :: "mem \<Rightarrow> usize \<Rightarrow> usize \<Rightarrow> usize \<Rightarrow> u16 option" where
  "ethertype_at m data data_end off =
     do { p \<leftarrow> ptr_at_data data data_end off 2;
          Some (from_be16 (read_u16 m p)) }"

text \<open>\<open>L4Ports\<close>: \<open>source\<close> at offset 0, \<open>dest\<close> at offset 2, 4 bytes.\<close>

definition read_ports :: "mem \<Rightarrow> usize \<Rightarrow> usize \<Rightarrow> usize \<Rightarrow> (u16 \<times> u16) option" where
  "read_ports m data data_end l4_off =
     do { p \<leftarrow> ptr_at_data data data_end l4_off 4;
          Some (from_be16 (read_u16 m p), from_be16 (read_u16 m (p + 2))) }"

text \<open>\<open>IcmpHead\<close>: \<open>ty\<close> at offset 0, \<open>id\<close> at offset 4, 8 bytes.\<close>

definition parse_icmp ::
    "mem \<Rightarrow> usize \<Rightarrow> usize \<Rightarrow> usize \<Rightarrow> u8 \<Rightarrow> (u16 \<times> u16 \<times> u8 \<times> u8) option" where
  "parse_icmp m data data_end l4_off proto =
     do { head \<leftarrow> ptr_at_data data data_end l4_off 8;
          let icmp_type = m head;
          let idn = from_be16 (read_u16 m (head + 4));
          Some (idn, idn, proto, icmp_type) }"

definition normalize_proto :: "u8 \<Rightarrow> bool \<Rightarrow> u8" where
  "normalize_proto proto is_v6 =
     (if proto = PROTO_TCP then PROTO_TCP
      else if proto = PROTO_UDP then PROTO_UDP
      else if proto = PROTO_ICMP \<and> \<not> is_v6 then PROTO_ICMP
      else if proto = PROTO_ICMPV6 \<and> is_v6 then PROTO_ICMPV6
      else PROTO_ANY)"

definition parse_l4 ::
    "mem \<Rightarrow> usize \<Rightarrow> usize \<Rightarrow> usize \<Rightarrow> u8 \<Rightarrow> bool \<Rightarrow> (u16 \<times> u16 \<times> u8 \<times> u8) option" where
  "parse_l4 m data data_end l4_off proto is_v6 =
     (if proto = PROTO_TCP then
        do { (s, d) \<leftarrow> read_ports m data data_end l4_off; Some (s, d, PROTO_TCP, 0) }
      else if proto = PROTO_UDP then
        do { (s, d) \<leftarrow> read_ports m data data_end l4_off; Some (s, d, PROTO_UDP, 0) }
      else if proto = PROTO_ICMP \<and> \<not> is_v6 then parse_icmp m data data_end l4_off PROTO_ICMP
      else if proto = PROTO_ICMPV6 \<and> is_v6 then parse_icmp m data data_end l4_off PROTO_ICMPV6
      else Some (0, 0, PROTO_ANY, 0))"

text \<open>The loop of \<open>walk_v6_ext\<close>, \<open>k\<close> iterations left. \<open>ExtTlv\<close>: \<open>next_hdr\<close> at 0,
  \<open>hdr_ext_len\<close> at 1, 2 bytes; \<open>FragHdr\<close>: \<open>next_hdr\<close> at 0, \<open>frag_off\<close> at 2, 8 bytes.\<close>

fun walk_v6_ext_loop ::
    "nat \<Rightarrow> mem \<Rightarrow> usize \<Rightarrow> usize \<Rightarrow> usize \<Rightarrow> u8 \<Rightarrow> usize \<Rightarrow> (u8 \<times> usize \<times> bool) option" where
  "walk_v6_ext_loop 0 m data data_end start next_hdr off = None"
| "walk_v6_ext_loop (Suc k) m data data_end start next_hdr off =
     (if off > start + MAX_V6_EXT_BYTES then None
      else if next_hdr = NH_HOPOPT \<or> next_hdr = NH_ROUTING \<or> next_hdr = NH_DSTOPTS \<or> next_hdr = NH_MOBILITY then
        do { eh \<leftarrow> ptr_at_data data data_end off 2;
             let ext_len = (ucast (m (eh + 1)) :: usize);
             off' \<leftarrow> checked_add off ((ext_len + 1) * 8);
             walk_v6_ext_loop k m data data_end start (m eh) off' }
      else if next_hdr = NH_FRAGMENT then
        do { fh \<leftarrow> ptr_at_data data data_end off 8;
             let next = m fh;
             let frag_off = read_u16 m (fh + 2);
             off' \<leftarrow> checked_add off 8;
             if (from_be16 frag_off AND 0xfff8) \<noteq> 0 then Some (next, off', True)
             else walk_v6_ext_loop k m data data_end start next off' }
      else Some (next_hdr, off, False))"

definition walk_v6_ext ::
    "mem \<Rightarrow> usize \<Rightarrow> usize \<Rightarrow> u8 \<Rightarrow> usize \<Rightarrow> (u8 \<times> usize \<times> bool) option" where
  "walk_v6_ext m data data_end next_hdr start =
     walk_v6_ext_loop MAX_V6_EXT_HDRS m data data_end start next_hdr start"

definition parse_v4 :: "headers \<Rightarrow> mem \<Rightarrow> usize \<Rightarrow> usize \<Rightarrow> usize \<Rightarrow> parsed option option" where
  "parse_v4 H m data data_end ip_off =
     do { ipv4 \<leftarrow> ptr_at_data data data_end ip_off (ipv4_hdr_size H);
          let src_be = ipv4_src_addr H m ipv4;
          let dst_be = ipv4_dst_addr H m ipv4;
          let ip_proto = ipv4_proto H m ipv4;
          let frag_off_be = ipv4_frag_off H m ipv4;
          let ihl = (ucast (ipv4_ihl H m ipv4) :: usize);
          if \<not> (5 \<le> ihl \<and> ihl \<le> 15) then None
          else
            do { let l4_off = ip_off + ihl * 4;
                 let noninitial_fragment = (from_be16 frag_off_be AND 0x1fff) \<noteq> 0;
                 (src_port, dst_port, proto_byte, icmp_type) \<leftarrow>
                   (if noninitial_fragment then Some (0, 0, normalize_proto ip_proto False, 0)
                    else parse_l4 m data data_end l4_off ip_proto False);
                 Some (Some
                   \<lparr>p_family = FAMILY_V4, p_proto_byte = proto_byte, p_icmp_type = icmp_type,
                    p_src_addr = to_ne_bytes32 src_be @ replicate 12 0,
                    p_dst_addr = to_ne_bytes32 dst_be @ replicate 12 0,
                    p_src_port = src_port, p_dst_port = dst_port\<rparr>) } }"

definition parse_v6 :: "headers \<Rightarrow> mem \<Rightarrow> usize \<Rightarrow> usize \<Rightarrow> usize \<Rightarrow> parsed option option" where
  "parse_v6 H m data data_end ip_off =
     do { ipv6 \<leftarrow> ptr_at_data data data_end ip_off (ipv6_hdr_size H);
          let next_hdr = ipv6_next_hdr H m ipv6;
          let src_addr = ipv6_src_addr H m ipv6;
          let dst_addr = ipv6_dst_addr H m ipv6;
          (proto, l4_off, noninitial_fragment) \<leftarrow>
            walk_v6_ext m data data_end next_hdr (ip_off + ipv6_hdr_size H);
          (src_port, dst_port, proto_byte, icmp_type) \<leftarrow>
            (if noninitial_fragment then Some (0, 0, normalize_proto proto True, 0)
             else parse_l4 m data data_end l4_off proto True);
          Some (Some
            \<lparr>p_family = FAMILY_V6, p_proto_byte = proto_byte, p_icmp_type = icmp_type,
             p_src_addr = src_addr, p_dst_addr = dst_addr,
             p_src_port = src_port, p_dst_port = dst_port\<rparr>) }"

definition parse_packet :: "headers \<Rightarrow> mem \<Rightarrow> usize \<Rightarrow> usize \<Rightarrow> usize \<Rightarrow> parsed option option" where
  "parse_packet H m data data_end l2_off =
     (if l2_off = 0 then
        do { head \<leftarrow> ptr_at_data data data_end 0 2;
             let v = drop_bit 4 (m head);
             if v = 4 then parse_v4 H m data data_end 0
             else if v = 6 then parse_v6 H m data data_end 0
             else Some None }
      else
        do { t \<leftarrow> ethertype_at m data data_end 12;
             if t = ETH_P_IP then parse_v4 H m data data_end (eth_hdr_len H)
             else if t = ETH_P_IPV6 then parse_v6 H m data data_end (eth_hdr_len H)
             else if t = ETH_P_8021Q \<or> t = ETH_P_8021AD then
               do { t1 \<leftarrow> ethertype_at m data data_end 16;
                    if t1 = ETH_P_IP then parse_v4 H m data data_end 18
                    else if t1 = ETH_P_IPV6 then parse_v6 H m data data_end 18
                    else if t1 = ETH_P_8021Q \<or> t1 = ETH_P_8021AD then
                      do { t2 \<leftarrow> ethertype_at m data data_end 20;
                           if t2 = ETH_P_IP then parse_v4 H m data data_end 22
                           else if t2 = ETH_P_IPV6 then parse_v6 H m data data_end 22
                           else Some None }
                    else Some None }
             else Some None })"

definition is_ndp :: "parsed \<Rightarrow> bool" where
  "is_ndp p \<longleftrightarrow>
     p_family p = FAMILY_V6 \<and> p_proto_byte p = PROTO_ICMPV6 \<and>
     (p_icmp_type p = ICMPV6_RS \<or> p_icmp_type p = ICMPV6_RA \<or> p_icmp_type p = ICMPV6_NS \<or>
      p_icmp_type p = ICMPV6_NA \<or> p_icmp_type p = ICMPV6_REDIRECT)"

section \<open>A reference parser on byte lists\<close>

definition pkt_bytes :: "mem \<Rightarrow> usize \<Rightarrow> usize \<Rightarrow> u8 list" where
  "pkt_bytes m data data_end = read_bytes m data (unat data_end - unat data)"

definition ref_u16 :: "u8 list \<Rightarrow> nat \<Rightarrow> u16" where
  "ref_u16 bs j = be_word (take 2 (drop j bs))"

definition ref_l4 :: "u8 \<Rightarrow> bool \<Rightarrow> u8 list \<Rightarrow> (u16 \<times> u16 \<times> u8 \<times> u8) option" where
  "ref_l4 proto is_v6 bs =
     (if proto = PROTO_TCP \<or> proto = PROTO_UDP then
        (if length bs < 4 then None else Some (ref_u16 bs 0, ref_u16 bs 2, proto, 0))
      else if proto = (if is_v6 then PROTO_ICMPV6 else PROTO_ICMP) then
        (if length bs < 8 then None else Some (ref_u16 bs 4, ref_u16 bs 4, proto, bs ! 0))
      else Some (0, 0, PROTO_ANY, 0))"

definition mk_parsed :: "u8 \<Rightarrow> u8 list \<Rightarrow> u8 list \<Rightarrow> u16 \<times> u16 \<times> u8 \<times> u8 \<Rightarrow> parsed" where
  "mk_parsed fam src dst l4 =
     (case l4 of (sp, dp, proto, ty) \<Rightarrow>
       \<lparr>p_family = fam, p_proto_byte = proto, p_icmp_type = ty, p_src_addr = src, p_dst_addr = dst,
        p_src_port = sp, p_dst_port = dp\<rparr>)"

definition ref_v4 :: "u8 list \<Rightarrow> parsed option" where
  "ref_v4 ip =
     (if length ip < 20 \<or> unat (ip ! 0 AND 15) < 5 then None
      else map_option
        (mk_parsed FAMILY_V4 (take 4 (drop 12 ip) @ replicate 12 0) (take 4 (drop 16 ip) @ replicate 12 0))
        (if (ref_u16 ip 6 AND 0x1fff) \<noteq> 0 then Some (0, 0, normalize_proto (ip ! 9) False, 0)
         else ref_l4 (ip ! 9) False (drop (4 * unat (ip ! 0 AND 15)) ip)))"

definition ext_hdr :: "u8 \<Rightarrow> bool" where
  "ext_hdr nh \<longleftrightarrow> nh = NH_HOPOPT \<or> nh = NH_ROUTING \<or> nh = NH_DSTOPTS \<or> nh = NH_MOBILITY"

text \<open>\<open>used\<close> counts the extension bytes already skipped.\<close>

fun ref_walk :: "nat \<Rightarrow> nat \<Rightarrow> u8 \<Rightarrow> u8 list \<Rightarrow> (u8 \<times> u8 list \<times> bool) option" where
  "ref_walk 0 used nh bs = None"
| "ref_walk (Suc k) used nh bs =
     (if 64 < used then None
      else if ext_hdr nh then
        (if length bs < 2 then None
         else ref_walk k (used + 8 * (unat (bs ! 1) + 1)) (bs ! 0) (drop (8 * (unat (bs ! 1) + 1)) bs))
      else if nh = NH_FRAGMENT then
        (if length bs < 8 then None
         else if (ref_u16 bs 2 AND 0xfff8) \<noteq> 0 then Some (bs ! 0, drop 8 bs, True)
         else ref_walk k (used + 8) (bs ! 0) (drop 8 bs))
      else Some (nh, bs, False))"

definition ref_v6 :: "u8 list \<Rightarrow> parsed option" where
  "ref_v6 ip =
     (if length ip < 40 then None
      else do { (proto, l4, frag) \<leftarrow> ref_walk 4 0 (ip ! 6) (drop 40 ip);
                map_option (mk_parsed FAMILY_V6 (take 16 (drop 8 ip)) (take 16 (drop 24 ip)))
                  (if frag then Some (0, 0, normalize_proto proto True, 0) else ref_l4 proto True l4) })"

text \<open>The Ethernet frame from its type field on, with \<open>n\<close> more VLAN tags accepted.\<close>

fun ref_ether :: "nat \<Rightarrow> u8 list \<Rightarrow> parsed option option" where
  "ref_ether n bs =
     (if length bs < 2 then None
      else if ref_u16 bs 0 = ETH_P_IP then map_option Some (ref_v4 (drop 2 bs))
      else if ref_u16 bs 0 = ETH_P_IPV6 then map_option Some (ref_v6 (drop 2 bs))
      else if ref_u16 bs 0 = ETH_P_8021Q \<or> ref_u16 bs 0 = ETH_P_8021AD then
        (case n of 0 \<Rightarrow> Some None | Suc k \<Rightarrow> ref_ether k (drop 4 bs))
      else Some None)"

declare ref_ether.simps [simp del]

definition ref_raw :: "u8 list \<Rightarrow> parsed option option" where
  "ref_raw bs =
     (if length bs < 2 then None
      else if drop_bit 4 (bs ! 0) = 4 then map_option Some (ref_v4 bs)
      else if drop_bit 4 (bs ! 0) = 6 then map_option Some (ref_v6 bs)
      else Some None)"

definition ref_packet :: "bool \<Rightarrow> u8 list \<Rightarrow> parsed option option" where
  "ref_packet raw bs = (if raw then ref_raw bs else ref_ether 2 (drop 12 bs))"

section \<open>The parser computes the reference on the bytes of the packet\<close>

definition rest :: "mem \<Rightarrow> usize \<Rightarrow> usize \<Rightarrow> usize \<Rightarrow> u8 list" where
  "rest m d e off = drop (unat off) (pkt_bytes m d e)"

lemma length_rest: "length (rest m d e off) = unat e - unat d - unat off"
  by (simp add: rest_def pkt_bytes_def read_bytes_def)

lemma ptr_at_data_rest:
  assumes "0 < unat sz"
  shows "ptr_at_data d e off sz = (if unat sz \<le> length (rest m d e off) then Some (d + off) else None)"
proof -
  have e: "unat e < 2 ^ LENGTH(64)" by (rule unsigned_less)
  consider "unat d + unat off \<ge> 2 ^ LENGTH(64)"
    | "unat d + unat off < 2 ^ LENGTH(64)" "unat d + unat off + unat sz \<ge> 2 ^ LENGTH(64)"
    | "unat d + unat off < 2 ^ LENGTH(64)" "unat d + unat off + unat sz < 2 ^ LENGTH(64)"
    by linarith
  then show ?thesis
  proof cases
    case 1
    with e assms show ?thesis by (simp add: ptr_at_data_def checked_add_def length_rest)
  next
    case 2
    with e assms show ?thesis by (simp add: ptr_at_data_def checked_add_def length_rest unat_plus_exact)
  next
    case 3
    then have "unat (d + off + sz) = unat d + unat off + unat sz" by (simp add: unat_plus_exact)
    with 3 e assms show ?thesis
      by (auto simp: ptr_at_data_def checked_add_def length_rest unat_plus_exact word_less_nat_alt)
  qed
qed

lemma read_bytes_rest:
  assumes "j + n \<le> length (rest m d e off)"
  shows "read_bytes m (d + off + of_nat j) n = take n (drop j (rest m d e off))"
proof (rule nth_equalityI)
  show "length (read_bytes m (d + off + of_nat j) n) = length (take n (drop j (rest m d e off)))"
    using assms by (simp add: read_bytes_def)
next
  fix i assume "i < length (read_bytes m (d + off + of_nat j) n)"
  then have i: "i < n" by (simp add: read_bytes_def)
  have "d + off + of_nat j + of_nat i = d + of_nat (unat off + (j + i))" by (simp add: algebra_simps)
  with i assms show "read_bytes m (d + off + of_nat j) n ! i = take n (drop j (rest m d e off)) ! i"
    by (simp add: read_bytes_def rest_def pkt_bytes_def algebra_simps)
qed

lemma read_u16_rest:
  assumes "j + 2 \<le> length (rest m d e off)"
  shows "from_be16 (read_u16 m (d + off + of_nat j)) = ref_u16 (rest m d e off) j"
proof -
  have r: "read_bytes m (d + off + of_nat j) 2 = take 2 (drop j (rest m d e off))"
    using assms by (rule read_bytes_rest)
  with assms have "length (take 2 (drop j (rest m d e off))) = 2" by simp
  then obtain a b where ab: "take 2 (drop j (rest m d e off)) = [a, b]"
    by (metis (no_types) length_0_conv length_Suc_conv numeral_2_eq_2)
  show ?thesis unfolding read_u16_def ref_u16_def r ab by (rule swap_le_is_be)
qed

lemma mem_rest: "j < length (rest m d e off) \<Longrightarrow> m (d + off + of_nat j) = rest m d e off ! j"
  using read_bytes_rest [of j 1 m d e off] by (simp add: read_bytes_def take_Suc hd_drop_conv_nth)

lemma rest_add:
  assumes "unat off + unat k < 2 ^ LENGTH(64)"
  shows "rest m d e (off + k) = drop (unat k) (rest m d e off)"
  unfolding rest_def unat_plus_exact [OF assms] by (simp add: drop_drop add.commute)

lemma mem_rest_first:
  "0 < n \<Longrightarrow> n \<le> length (rest m d e off) \<Longrightarrow> m (d + off) = rest m d e off ! 0"
  "1 < n \<Longrightarrow> n \<le> length (rest m d e off) \<Longrightarrow> m (d + off + 1) = rest m d e off ! 1"
  using mem_rest [of 0 m d e off] mem_rest [of 1 m d e off] by (auto simp del: length_greater_0_conv)

lemmas read_u16_rest_lits =
  read_u16_rest [of 0, simplified] read_u16_rest [of "numeral n" for n, simplified]

lemmas ptr_at_data_lits = ptr_at_data_rest [where sz = "numeral n" for n, simplified]

lemma parse_l4_rest: "parse_l4 m d e off proto is_v6 = ref_l4 proto is_v6 (rest m d e off)"
proof -
  have ports: "read_ports m d e off =
      (if length (rest m d e off) < 4 then None
       else Some (ref_u16 (rest m d e off) 0, ref_u16 (rest m d e off) 2))"
    by (auto simp: read_ports_def ptr_at_data_lits [where m = m] read_u16_rest_lits)
  have icmp: "parse_icmp m d e off pr =
      (if length (rest m d e off) < 8 then None
       else Some (ref_u16 (rest m d e off) 4, ref_u16 (rest m d e off) 4, pr, rest m d e off ! 0))" for pr
    using mem_rest_first(1) [of 8 m d e off]
    by (auto simp: parse_icmp_def ptr_at_data_lits [where m = m] read_u16_rest_lits Let_def)
  show ?thesis
    by (auto simp: parse_l4_def ref_l4_def ports icmp)
qed

lemma ext_len_bytes: "unat ((ucast (b :: u8) + 1) * 8 :: usize) = 8 * (unat b + 1)"
proof -
  have b: "unat b < 256" using unsigned_less [of b, where 'a = nat] by simp
  have u: "unat (ucast b :: usize) = unat b"
    by (simp add: unsigned_ucast_eq take_bit_nat_eq_self_iff order.strict_trans [OF unsigned_less])
  with b have "unat (ucast b + 1 :: usize) = unat b + 1" by (simp add: unat_plus_exact)
  then have "unat ((ucast b + 1) * 8 :: usize) = (unat b + 1) * 8 mod 2 ^ LENGTH(64)"
    by (simp add: unat_word_ariths(2) del: distrib_right_numeral)
  with b show ?thesis by simp
qed

text \<open>What one step forward does to the offset and to the bytes that remain.\<close>

lemma ext_advance:
  assumes "unat start \<le> 1000" "unat off = unat start + used" "used \<le> 64" "unat x \<le> 2048"
  shows "checked_add off x = Some (off + x)" "rest m d e (off + x) = drop (unat x) (rest m d e off)"
    "unat (off + x) = unat start + (used + unat x)" "used + unat x \<le> 4000"
  using assms by (simp_all add: checked_add_Some rest_add unat_plus_exact)

lemma ext_bytes_bound: "unat ((ucast (b :: u8) + 1) * 8 :: usize) \<le> 2048"
  using unsigned_less [of b, where 'a = nat] by (simp add: ext_len_bytes del: distrib_right_numeral)

lemma far_bytes:
  "unat start \<le> 1000 \<Longrightarrow> unat off = unat start + used \<Longrightarrow> start + MAX_V6_EXT_BYTES < off \<longleftrightarrow> 64 < used" for start off :: usize
  by (simp add: word_less_nat_alt unat_plus_exact moat_consts)

lemma walk_v6_ext_loop_rest:
  assumes "unat start \<le> 1000" "unat off = unat start + used" "used \<le> 4000"
  shows "map_option (\<lambda>(p, o', f). (p, rest m d e o', f)) (walk_v6_ext_loop k m d e start nh off) =
    ref_walk k used nh (rest m d e off)"
  using assms(2,3)
proof (induction k arbitrary: used nh off)
  case (Suc k)
  note far = far_bytes [OF assms(1) Suc.prems(1)]
  show ?case
  proof (cases "64 < used")
    case False
    then have "used \<le> 64" by simp
    note add = ext_advance [OF assms(1) Suc.prems(1) this]
    have IH: "map_option (\<lambda>(p, o', f). (p, rest m d e o', f)) (walk_v6_ext_loop k m d e start nh' (off + x)) =
        ref_walk k (used + unat x) nh' (drop (unat x) (rest m d e off))" if "unat x \<le> 2048" for x nh'
      using Suc.IH [OF add(3,4), of x nh'] add(2) that by simp
    consider (ext) "ext_hdr nh" | (frag) "\<not> ext_hdr nh" "nh = NH_FRAGMENT" | (other) "\<not> ext_hdr nh" "nh \<noteq> NH_FRAGMENT"
      by blast
    then show ?thesis
    proof cases
      case ext
      then show ?thesis
        using False mem_rest_first [of 2 m d e off] IH [OF ext_bytes_bound]
        by (auto simp: far ext_hdr_def [symmetric] ptr_at_data_lits [where m = m] add [OF ext_bytes_bound]
            ext_len_bytes Let_def simp del: distrib_right_numeral distrib_left_numeral)
    next
      case frag
      have "from_be16 (read_u16 m (d + off + 2)) = ref_u16 (rest m d e off) 2"
        if "8 \<le> length (rest m d e off)"
        using read_u16_rest [of 2 m d e off] that by simp
      with frag show ?thesis
        using False mem_rest_first [of 8 m d e off] IH [of 8] add [of 8]
        by (auto simp: far ext_hdr_def [symmetric] ptr_at_data_lits [where m = m] Let_def)
    qed (use False in \<open>simp add: far ext_hdr_def [symmetric]\<close>)
  qed (simp add: far)
qed simp

lemma ihl_nibble: "unat (ucast (b AND 15 :: u8) :: usize) = unat (b AND 15)" "unat (b AND 15 :: u8) \<le> 15"
proof -
  show "unat (ucast (b AND 15 :: u8) :: usize) = unat (b AND 15)"
    by (simp add: unsigned_ucast_eq take_bit_nat_eq_self_iff order.strict_trans [OF unsigned_less])
  show "unat (b AND 15 :: u8) \<le> 15"
    using word_and_le1 [of b 15] by (simp add: word_le_nat_alt)
qed

lemma ne_bytes_rest:
  assumes "j + 4 \<le> length (rest m d e off)"
  shows "to_ne_bytes32 (le_word (read_bytes m (d + off + of_nat j) 4)) = take 4 (drop j (rest m d e off))"
proof -
  have r: "read_bytes m (d + off + of_nat j) 4 = take 4 (drop j (rest m d e off))"
    using assms by (rule read_bytes_rest)
  have "length (take 4 (drop j (rest m d e off))) = Suc (Suc (Suc (Suc 0)))" using assms by simp
  then obtain a b c f where "take 4 (drop j (rest m d e off)) = [a, b, c, f]"
    unfolding length_Suc_conv length_0_conv by blast
  then show ?thesis unfolding r by (simp add: to_ne_bytes_le_word)
qed

lemma parse_v4_rest:
  assumes "rfc_headers H" "unat off \<le> 1000"
  shows "parse_v4 H m d e off = map_option Some (ref_v4 (rest m d e off))"
proof (cases "length (rest m d e off) < 20")
  case True
  with assms show ?thesis
    by (simp add: parse_v4_def ref_v4_def rfc_headers_def ptr_at_data_lits [where m = m])
next
  case False
  let ?r = "rest m d e off"
  let ?ihl = "ucast (?r ! 0 AND 15) :: usize"
  have H: "ipv4_hdr_size H = 20" "ipv4_src_addr H m (d + off) = le_word (read_bytes m (d + off + 12) 4)"
    "ipv4_dst_addr H m (d + off) = le_word (read_bytes m (d + off + 16) 4)"
    "ipv4_proto H m (d + off) = ?r ! 9" "from_be16 (ipv4_frag_off H m (d + off)) = ref_u16 ?r 6"
    "ipv4_ihl H m (d + off) = ?r ! 0 AND 15"
    using assms(1) False mem_rest_first(1) [of 20 m d e off] mem_rest [of 9 m d e off]
      read_u16_rest [of 6 m d e off]
    by (simp_all add: rfc_headers_def)
  have src: "to_ne_bytes32 (le_word (read_bytes m (d + off + 12) 4)) = take 4 (drop 12 ?r)"
    and dst: "to_ne_bytes32 (le_word (read_bytes m (d + off + 16) 4)) = take 4 (drop 16 ?r)"
    using ne_bytes_rest [of 12 m d e off] ne_bytes_rest [of 16 m d e off] False by simp_all
  have u: "unat ?ihl = unat (?r ! 0 AND 15)" "unat (?r ! 0 AND 15) \<le> 15" by (rule ihl_nibble)+
  then have ihl: "(5 \<le> ?ihl \<and> ?ihl \<le> 15) \<longleftrightarrow> \<not> unat (?r ! 0 AND 15) < 5"
    by (auto simp: word_le_nat_alt)
  have "unat (?ihl * 4) = 4 * unat (?r ! 0 AND 15)" using u by (simp add: unat_word_ariths)
  then have l4: "rest m d e (off + ?ihl * 4) = drop (4 * unat (?r ! 0 AND 15)) ?r"
    using assms(2) u by (subst rest_add) simp_all
  have ptr: "ptr_at_data d e off 20 = Some (d + off)" using False by (simp add: ptr_at_data_lits [where m = m])
  show ?thesis
    using False unfolding parse_v4_def ref_v4_def H(1) ptr Option.bind.simps Let_def H ihl src dst parse_l4_rest l4
    by (auto simp: mk_parsed_def split: Option.bind_splits prod.splits)
qed

lemma parse_v6_rest:
  assumes "rfc_headers H" "unat off \<le> 900"
  shows "parse_v6 H m d e off = map_option Some (ref_v6 (rest m d e off))"
proof (cases "length (rest m d e off) < 40")
  case True
  with assms show ?thesis
    by (simp add: parse_v6_def ref_v6_def rfc_headers_def ptr_at_data_lits [where m = m])
next
  case False
  let ?r = "rest m d e off"
  have H: "ipv6_hdr_size H = 40" "ipv6_src_addr H m (d + off) = take 16 (drop 8 ?r)"
    "ipv6_dst_addr H m (d + off) = take 16 (drop 24 ?r)" "ipv6_next_hdr H m (d + off) = ?r ! 6"
    using assms(1) False mem_rest [of 6 m d e off] read_bytes_rest [of 8 16 m d e off]
      read_bytes_rest [of 24 16 m d e off]
    by (simp_all add: rfc_headers_def)
  have ptr: "ptr_at_data d e off 40 = Some (d + off)" using False by (simp add: ptr_at_data_lits [where m = m])
  have "unat (off + 40) \<le> 1000" "rest m d e (off + 40) = drop 40 ?r"
    using assms(2) by (simp_all add: unat_plus_exact rest_add)
  then have walk: "ref_walk 4 0 (?r ! 6) (drop 40 ?r) =
      map_option (\<lambda>(p, o', f). (p, rest m d e o', f)) (walk_v6_ext m d e (?r ! 6) (off + 40))"
    using walk_v6_ext_loop_rest [of "off + 40" "off + 40" 0 m d e 4 "?r ! 6"]
    by (simp add: walk_v6_ext_def moat_consts)
  show ?thesis
    using False unfolding parse_v6_def ref_v6_def H(1) ptr Option.bind.simps Let_def H parse_l4_rest walk
    by (auto simp: mk_parsed_def split: Option.bind_splits prod.splits)
qed

lemma ethertype_at_rest:
  "ethertype_at m d e off = (if length (rest m d e off) < 2 then None else Some (ref_u16 (rest m d e off) 0))"
  using read_u16_rest [of 0 m d e off] by (auto simp: ethertype_at_def ptr_at_data_lits [where m = m])

lemma rest_numeral: "rest m d e (numeral n) = drop (unat (numeral n :: usize)) (pkt_bytes m d e)"
  by (simp add: rest_def)

lemma parse_packet_ref:
  assumes "rfc_headers H"
  shows "parse_packet H m d e l2 = ref_packet (l2 = 0) (pkt_bytes m d e)"
proof (cases "l2 = 0")
  case True
  have r0: "rest m d e 0 = pkt_bytes m d e" by (simp add: rest_def)
  have "m d = pkt_bytes m d e ! 0" if "2 \<le> length (pkt_bytes m d e)"
    using mem_rest_first(1) [of 2 m d e 0] that by (simp add: r0)
  then show ?thesis
    using True assms
    by (auto simp: parse_packet_def ref_packet_def ref_raw_def ptr_at_data_lits [where m = m] r0
        parse_v4_rest parse_v6_rest Let_def)
next
  case False
  have eth: "eth_hdr_len H = 14" using assms by (simp add: rfc_headers_def)
  have two: "(2::nat) = Suc (Suc 0)" by simp
  from False show ?thesis
    unfolding parse_packet_def ref_packet_def two
    by (simp add: eth ethertype_at_rest parse_v4_rest [OF assms] parse_v6_rest [OF assms] rest_numeral
        ref_ether.simps)
qed

section \<open>Consequences\<close>

lemma pkt_bytes_cong:
  assumes "\<And>a. data \<le> a \<Longrightarrow> a < data_end \<Longrightarrow> m a = m' a"
  shows "pkt_bytes m data data_end = pkt_bytes m' data data_end"
proof -
  have "m (data + of_nat i) = m' (data + of_nat i)" if i: "i < unat data_end - unat data" for i
  proof -
    have e: "unat data_end < 2 ^ LENGTH(64)" by (rule unsigned_less)
    with i have "unat (of_nat i :: usize) = i" by (simp add: unat_of_nat)
    with i e have "unat (data + of_nat i) = unat data + i" by (simp add: unat_plus_exact)
    with i show ?thesis by (intro assms) (simp_all add: word_le_nat_alt word_less_nat_alt)
  qed
  then show ?thesis by (simp add: pkt_bytes_def read_bytes_def)
qed

text \<open>What the data path may rely on in a parsed packet.\<close>

definition wf_parsed :: "parsed \<Rightarrow> bool" where
  "wf_parsed p \<longleftrightarrow>
     length (p_src_addr p) = 16 \<and> length (p_dst_addr p) = 16 \<and>
     (p_family p = FAMILY_V4 \<and> p_proto_byte p \<in> {PROTO_ANY, PROTO_ICMP, PROTO_TCP, PROTO_UDP} \<and>
        drop 4 (p_src_addr p) = replicate 12 0 \<and> drop 4 (p_dst_addr p) = replicate 12 0 \<or>
      p_family p = FAMILY_V6 \<and> p_proto_byte p \<in> {PROTO_ANY, PROTO_ICMPV6, PROTO_TCP, PROTO_UDP}) \<and>
     (p_proto_byte p = PROTO_ANY \<longrightarrow> p_src_port p = 0 \<and> p_dst_port p = 0 \<and> p_icmp_type p = 0) \<and>
     (p_proto_byte p \<in> {PROTO_ICMP, PROTO_ICMPV6} \<longrightarrow> p_src_port p = p_dst_port p)"

definition l4_fields_ok :: "bool \<Rightarrow> u16 \<times> u16 \<times> u8 \<times> u8 \<Rightarrow> bool" where
  "l4_fields_ok is_v6 l4 = (case l4 of (sp, dp, pr, ty) \<Rightarrow>
     pr \<in> {PROTO_ANY, PROTO_TCP, PROTO_UDP, if is_v6 then PROTO_ICMPV6 else PROTO_ICMP} \<and>
     (pr = PROTO_ANY \<longrightarrow> sp = 0 \<and> dp = 0 \<and> ty = 0) \<and>
     (pr \<in> {PROTO_ICMP, PROTO_ICMPV6} \<longrightarrow> sp = dp))"

lemma l4_fields_ok_fragment: "l4_fields_ok is_v6 (0, 0, normalize_proto x is_v6, 0)"
  by (simp add: l4_fields_ok_def normalize_proto_def)

lemma l4_fields_ok_ref_l4: "ref_l4 proto is_v6 bs = Some l4 \<Longrightarrow> l4_fields_ok is_v6 l4"
  by (auto simp: ref_l4_def l4_fields_ok_def moat_consts split: if_splits)

lemma l4_fields_ok_upper:
  "(if frag then Some (0, 0, normalize_proto x is_v6, 0) else ref_l4 y is_v6 bs) = Some l4 \<Longrightarrow> l4_fields_ok is_v6 l4"
  using l4_fields_ok_fragment l4_fields_ok_ref_l4 by (auto split: if_splits)

lemma mk_parsed_wf4:
  "l4_fields_ok False l4 \<Longrightarrow> length src = 4 \<Longrightarrow> length dst = 4 \<Longrightarrow>
   wf_parsed (mk_parsed FAMILY_V4 (src @ replicate 12 0) (dst @ replicate 12 0) l4)"
  by (cases l4) (simp add: l4_fields_ok_def wf_parsed_def mk_parsed_def, blast)

lemma mk_parsed_wf6:
  "l4_fields_ok True l4 \<Longrightarrow> length src = 16 \<Longrightarrow> length dst = 16 \<Longrightarrow> wf_parsed (mk_parsed FAMILY_V6 src dst l4)"
  by (cases l4) (simp add: l4_fields_ok_def wf_parsed_def mk_parsed_def, blast)

lemma ref_v4_wf:
  assumes "ref_v4 ip = Some p"
  shows "wf_parsed p"
proof -
  have len: "\<not> (length ip < 20 \<or> unat (ip ! 0 AND 15) < 5)"
    using assms unfolding ref_v4_def by (metis option.distinct(1))
  define frag where "frag \<longleftrightarrow> (ref_u16 ip 6 AND 0x1fff) \<noteq> 0"
  have "map_option (mk_parsed FAMILY_V4 (take 4 (drop 12 ip) @ replicate 12 0) (take 4 (drop 16 ip) @ replicate 12 0))
       (if frag then Some (0, 0, normalize_proto (ip ! 9) False, 0)
        else ref_l4 (ip ! 9) False (drop (4 * unat (ip ! 0 AND 15)) ip)) = Some p"
    using assms len unfolding ref_v4_def frag_def by (simp only: if_False)
  with len show ?thesis by (auto simp del: if_split intro!: mk_parsed_wf4 dest: l4_fields_ok_upper)
qed

lemma ref_v6_wf:
  assumes "ref_v6 ip = Some p"
  shows "wf_parsed p"
proof -
  have len: "40 \<le> length ip" using assms by (auto simp: ref_v6_def split: if_splits)
  with assms obtain proto l4 frag where
    "map_option (mk_parsed FAMILY_V6 (take 16 (drop 8 ip)) (take 16 (drop 24 ip)))
       (if frag then Some (0, 0, normalize_proto proto True, 0) else ref_l4 proto True l4) = Some p"
    by (auto simp: ref_v6_def bind_eq_Some_conv simp del: map_option_eq_Some ref_walk.simps)
  with len show ?thesis by (auto simp del: if_split intro!: mk_parsed_wf6 dest: l4_fields_ok_upper)
qed

lemma ref_ether_wf: "ref_ether n bs = Some (Some p) \<Longrightarrow> wf_parsed p"
  by (induction n bs rule: ref_ether.induct)
    (subst (asm) (2) ref_ether.simps, auto split: if_splits nat.splits intro: ref_v4_wf ref_v6_wf)

lemma ref_packet_wf: "ref_packet raw bs = Some (Some p) \<Longrightarrow> wf_parsed p"
  by (auto simp: ref_packet_def ref_raw_def ref_ether_wf split: if_splits intro: ref_v4_wf ref_v6_wf)

lemma parse_packet_wf: "rfc_headers H \<Longrightarrow> parse_packet H m d e l2 = Some (Some p) \<Longrightarrow> wf_parsed p"
  by (simp add: parse_packet_ref ref_packet_wf)

subsection \<open>A packet given by its bytes\<close>

definition mem_of :: "usize \<Rightarrow> u8 list \<Rightarrow> mem" where
  "mem_of base bs a = (if unat (a - base) < length bs then bs ! unat (a - base) else 0)"

lemma pkt_bytes_mem_of:
  assumes "unat base + length bs < 2 ^ LENGTH(64)"
  shows "pkt_bytes (mem_of base bs) base (base + of_nat (length bs)) = bs"
proof -
  have u: "unat (of_nat i :: usize) = i" if "i \<le> length bs" for i
    using that assms by (simp add: unat_of_nat)
  then have "unat (base + of_nat (length bs)) = unat base + length bs"
    using assms by (simp add: unat_plus_exact)
  then show ?thesis
    by (intro nth_equalityI) (simp_all add: pkt_bytes_def read_bytes_def mem_of_def u)
qed

text \<open>A TCP segment from 10.0.0.1 port 12345 to 10.0.0.2 port 22, used in the examples below.\<close>

definition sample_l4 :: "u8 list" where
  "sample_l4 = [0x30, 0x39, 0, 22]"

definition sample_v4 :: "u8 list" where
  "sample_v4 = [0x45, 0, 0, 24, 0, 0, 0, 0, 64, 6, 0, 0, 10, 0, 0, 1, 10, 0, 0, 2] @ sample_l4"

definition sample_parsed :: parsed where
  "sample_parsed =
     \<lparr>p_family = FAMILY_V4, p_proto_byte = PROTO_TCP, p_icmp_type = 0,
      p_src_addr = [10, 0, 0, 1] @ replicate 12 0, p_dst_addr = [10, 0, 0, 2] @ replicate 12 0,
      p_src_port = 12345, p_dst_port = 22\<rparr>"

definition sample_reply_v4 :: "u8 list" where
  "sample_reply_v4 = [0x45, 0, 0, 24, 0, 0, 0, 0, 64, 6, 0, 0, 10, 0, 0, 2, 10, 0, 0, 1] @ [0, 22, 0x30, 0x39]"

definition sample_reply :: parsed where
  "sample_reply =
     \<lparr>p_family = FAMILY_V4, p_proto_byte = PROTO_TCP, p_icmp_type = 0,
      p_src_addr = [10, 0, 0, 2] @ replicate 12 0, p_dst_addr = [10, 0, 0, 1] @ replicate 12 0,
      p_src_port = 22, p_dst_port = 12345\<rparr>"

lemma ref_v4_sample_reply: "ref_v4 sample_reply_v4 = Some sample_reply"
  by (simp add: ref_v4_def sample_reply_v4_def sample_reply_def ref_u16_def ref_l4_def mk_parsed_def
      be_word_def moat_consts)

lemma ref_v4_sample: "ref_v4 sample_v4 = Some sample_parsed"
  by (simp add: ref_v4_def sample_v4_def sample_l4_def sample_parsed_def ref_u16_def ref_l4_def mk_parsed_def
      be_word_def moat_consts)

lemma parse_packet_of_bytes:
  "rfc_headers H \<Longrightarrow> unat base + length bs < 2 ^ LENGTH(64) \<Longrightarrow>
   parse_packet H (mem_of base bs) base (base + of_nat (length bs)) l2_off = ref_packet (l2_off = 0) bs"
  by (simp add: parse_packet_ref pkt_bytes_mem_of)

lemma parse_packet_sample:
  "parse_packet rfc_layout (mem_of 4096 sample_v4) 4096 4120 0 = Some (Some sample_parsed)"
  using parse_packet_of_bytes [OF rfc_headers_layout, of 4096 sample_v4 0] ref_v4_sample
  by (simp add: ref_packet_def ref_raw_def sample_v4_def sample_l4_def)

lemma parse_packet_sample_reply:
  "parse_packet rfc_layout (mem_of 4096 sample_reply_v4) 4096 4120 0 = Some (Some sample_reply)"
  using parse_packet_of_bytes [OF rfc_headers_layout, of 4096 sample_reply_v4 0] ref_v4_sample_reply
  by (simp add: ref_packet_def ref_raw_def sample_reply_v4_def)

subsection \<open>VLAN tags\<close>

definition vlan_tag :: "u8 list \<Rightarrow> bool" where
  "vlan_tag t \<longleftrightarrow> length t = 4 \<and> (ref_u16 t 0 = ETH_P_8021Q \<or> ref_u16 t 0 = ETH_P_8021AD)"

lemma ref_u16_append: "2 \<le> length t \<Longrightarrow> ref_u16 (t @ bs) 0 = ref_u16 t 0"
  by (simp add: ref_u16_def)

lemma ref_ether_tag:
  assumes "vlan_tag t"
  shows "ref_ether n (t @ bs) = (case n of 0 \<Rightarrow> Some None | Suc k \<Rightarrow> ref_ether k bs)"
proof -
  have "ref_u16 (t @ bs) 0 = ETH_P_8021Q \<or> ref_u16 (t @ bs) 0 = ETH_P_8021AD" "length t = 4"
    using assms by (auto simp: vlan_tag_def ref_u16_append)
  then show ?thesis by (subst ref_ether.simps) (auto simp: moat_consts split: nat.split)
qed

lemma ref_ether_tags:
  "list_all vlan_tag ts \<Longrightarrow> length ts \<le> n \<Longrightarrow> ref_ether n (concat ts @ bs) = ref_ether (n - length ts) bs"
proof (induction ts arbitrary: n)
  case (Cons t ts)
  then show ?case by (cases n) (simp_all add: ref_ether_tag)
qed simp

lemma ref_ether_ip:
  "ref_u16 bs 0 = ETH_P_IP \<or> ref_u16 bs 0 = ETH_P_IPV6 \<Longrightarrow> ref_ether n bs = ref_ether k bs"
  by (subst (1 2) ref_ether.simps) auto

subsection \<open>IPv6 extension headers\<close>

text \<open>A chain of extension headers, each given by its type, its length field and the bytes
  that follow the two leading ones, in front of the upper-layer bytes \<open>l4\<close>.\<close>

fun ext_chain :: "(u8 \<times> u8 \<times> u8 list) list \<Rightarrow> u8 \<Rightarrow> u8 list \<Rightarrow> u8 \<times> u8 list" where
  "ext_chain [] proto l4 = (proto, l4)"
| "ext_chain ((t, len, body) # hs) proto l4 =
     (let (nh, bs) = ext_chain hs proto l4 in (t, nh # len # body @ bs))"

definition wf_ext :: "u8 \<times> u8 \<times> u8 list \<Rightarrow> bool" where
  "wf_ext h = (case h of (t, len, body) \<Rightarrow> ext_hdr t \<and> length body = 8 * unat len + 6)"

definition ext_size :: "u8 \<times> u8 \<times> u8 list \<Rightarrow> nat" where
  "ext_size h = (case h of (t, len, body) \<Rightarrow> 8 * (unat len + 1))"

lemma ref_walk_chain:
  "list_all wf_ext hs \<Longrightarrow> used + sum_list (map ext_size hs) \<le> 64 \<Longrightarrow> length hs < k \<Longrightarrow>
   \<not> ext_hdr proto \<Longrightarrow> proto \<noteq> NH_FRAGMENT \<Longrightarrow>
   ref_walk k used (fst (ext_chain hs proto l4)) (snd (ext_chain hs proto l4)) = Some (proto, l4, False)"
proof (induction hs arbitrary: k used)
  case Nil
  then show ?case by (cases k) simp_all
next
  case (Cons h hs)
  obtain t len body where h: "h = (t, len, body)" by (cases h)
  obtain nh bs where c: "ext_chain hs proto l4 = (nh, bs)" by (cases "ext_chain hs proto l4")
  obtain j where k: "k = Suc j" using Cons.prems(3) by (cases k) auto
  have "ref_walk j (used + 8 * (unat len + 1)) nh bs = Some (proto, l4, False)"
    using Cons.IH [of "used + 8 * (unat len + 1)" j] Cons.prems by (simp add: k c h ext_size_def)
  moreover have "ext_hdr t" "length body = 8 * unat len + 6"
    using Cons.prems(1) by (simp_all add: wf_ext_def h)
  ultimately show ?case
    using Cons.prems(2) by (simp add: h c k ext_size_def drop_Cons')
qed

lemma ref_walk_upper_layer:
  "ref_walk k used nh bs = Some (proto, l4, frag) \<Longrightarrow> \<not> frag \<Longrightarrow> \<not> ext_hdr proto \<and> proto \<noteq> NH_FRAGMENT"
  by (induction k used nh bs rule: ref_walk.induct) (auto split: if_splits)

lemma ref_walk_too_long:
  "list_all wf_ext hs \<Longrightarrow> k \<le> length hs \<Longrightarrow>
   ref_walk k used (fst (ext_chain hs proto l4)) (snd (ext_chain hs proto l4)) = None"
proof (induction hs arbitrary: k used)
  case (Cons h hs)
  obtain t len body where h: "h = (t, len, body)" by (cases h)
  obtain nh bs where c: "ext_chain hs proto l4 = (nh, bs)" by (cases "ext_chain hs proto l4")
  show ?case
  proof (cases k)
    case (Suc j)
    have "ref_walk j (used + 8 * (unat len + 1)) nh bs = None"
      using Cons.IH [of j "used + 8 * (unat len + 1)"] Cons.prems by (simp add: c Suc)
    moreover have "ext_hdr t" "length body = 8 * unat len + 6"
      using Cons.prems(1) by (simp_all add: wf_ext_def h)
    ultimately show ?thesis by (simp add: h c Suc drop_Cons')
  qed simp
qed simp

lemma walk_v6_ext_loop_bounds:
  assumes "unat start \<le> 1000" "unat start \<le> unat off"
    and "walk_v6_ext_loop k m d e start nh off = Some (proto, o', frag)"
  shows "unat start \<le> unat o' \<and> unat o' \<le> unat start + (if frag then 72 else 64)"
  using assms(2,3)
proof (induction k arbitrary: nh off)
  case 0
  then show ?case by simp
next
  case (Suc k)
  have "unat (start + MAX_V6_EXT_BYTES) = unat start + 64"
    using assms(1) by (simp add: moat_consts unat_plus_exact)
  then have near: "\<not> start + MAX_V6_EXT_BYTES < off \<Longrightarrow> unat off \<le> unat start + 64"
    by (simp add: word_less_nat_alt)
  have add: "unat off' = unat off + unat x" if "checked_add off x = Some off'" for off' x
    using that by (auto simp: checked_add_Some unat_plus_exact)
  from Suc.prems(2) consider
      (rec) off' x nh' where "checked_add off x = Some off'" "walk_v6_ext_loop k m d e start nh' off' = Some (proto, o', frag)"
    | (frag) "\<not> start + MAX_V6_EXT_BYTES < off" "checked_add off 8 = Some o'" "frag"
    | (stop) "\<not> start + MAX_V6_EXT_BYTES < off" "o' = off" "\<not> frag"
    by (auto simp: Let_def split: if_splits Option.bind_splits)
  then show ?case
  proof cases
    case rec
    with Suc.IH [OF _ rec(2)] add [OF rec(1)] Suc.prems(1) show ?thesis by linarith
  next
    case frag
    with near add [OF frag(2)] Suc.prems(1) show ?thesis by simp
  next
    case stop
    with near Suc.prems(1) show ?thesis by simp
  qed
qed

section \<open>Properties of the parser\<close>

text \<open>
  Property C6. The parser of the data path, with its pointer arithmetic, byte swaps and
  bounded loop, computes the reference parser on the bytes between \<open>data\<close> and \<open>data_end\<close>,
  for every memory, every packet length and every interface type; in particular it returns
  an error exactly when the reference does.
\<close>

theorem parse_packet_equals_reference:
  assumes "rfc_headers H"
  shows "parse_packet H m data data_end l2_off = ref_packet (l2_off = 0) (pkt_bytes m data data_end)"
  using assms by (rule parse_packet_ref)

theorem parse_packet_equals_reference_witness:
  "parse_packet rfc_layout (mem_of 4096 [0x60, 0]) 4096 4098 0 = ref_packet True [0x60, 0] \<and>
   ref_packet True [0x60, 0] = None"
proof -
  have "pkt_bytes (mem_of 4096 [0x60, 0]) 4096 4098 = [0x60, 0]"
    using pkt_bytes_mem_of [of 4096 "[0x60, 0]"] by simp
  then show ?thesis
    using parse_packet_equals_reference [OF rfc_headers_layout, of "mem_of 4096 [0x60, 0]" 4096 4098 0]
    by (simp add: ref_packet_def ref_raw_def ref_v6_def)
qed

text \<open>
  Property C17. Memory safety: the parser never lets a byte outside the packet influence
  its result. Two memories that agree from \<open>data\<close> up to \<open>data_end\<close> are parsed alike.
\<close>

theorem parse_reads_only_the_packet:
  assumes "rfc_headers H"
    and "\<And>a. data \<le> a \<Longrightarrow> a < data_end \<Longrightarrow> m a = m' a"
  shows "parse_packet H m data data_end l2_off = parse_packet H m' data data_end l2_off"
  using pkt_bytes_cong [of data data_end m m', OF assms(2)] by (simp add: parse_packet_ref [OF assms(1)])

theorem parse_reads_only_the_packet_witness:
  "parse_packet rfc_layout (\<lambda>a. if a < 200 then 0x45 else 0) 100 200 14 =
   parse_packet rfc_layout (\<lambda>a. 0x45) 100 200 14"
  by (rule parse_reads_only_the_packet) simp_all

text \<open>
  Every parsed packet is well formed: both addresses have 16 bytes (for IPv4
  the last twelve are zero), the protocol is one the rules can name for that family or
  \<open>PROTO_ANY\<close>, a packet without a known protocol has no ports, and ICMP carries its
  identifier in both port fields.
\<close>

theorem parsed_packet_well_formed:
  assumes "rfc_headers H" and "parse_packet H m data data_end l2_off = Some (Some p)"
  shows "wf_parsed p"
  using assms by (rule parse_packet_wf)

theorem parsed_packet_well_formed_witness: "wf_parsed sample_parsed \<and> p_dst_port sample_parsed = 22"
  using parsed_packet_well_formed [OF rfc_headers_layout parse_packet_sample] by (simp add: sample_parsed_def)

text \<open>
  Property C25. VLAN tags hide nothing: up to two 802.1Q or 802.1ad tags in front of an IP
  packet leave the result of the parser unchanged.
\<close>

theorem vlan_tags_are_transparent:
  assumes "rfc_headers H" and "l2_off \<noteq> 0" and "length mac = 12"
    and "list_all vlan_tag tags" and "length tags \<le> 2"
    and "ref_u16 frame 0 = ETH_P_IP \<or> ref_u16 frame 0 = ETH_P_IPV6"
    and "pkt_bytes m data data_end = mac @ frame"
    and "pkt_bytes m' data' data_end' = mac @ concat tags @ frame"
  shows "parse_packet H m' data' data_end' l2_off = parse_packet H m data data_end l2_off"
  using assms(2,3) ref_ether_tags [OF assms(4,5), of frame] ref_ether_ip [OF assms(6), of "2 - length tags" 2]
  by (simp add: parse_packet_ref [OF assms(1)] assms(7,8) ref_packet_def)

theorem vlan_tags_are_transparent_witness:
  "parse_packet rfc_layout (mem_of 4096 (replicate 12 1 @ [0x88, 0xa8, 0, 5, 0x81, 0, 0, 7] @ [8, 0] @ sample_v4)) 4096 4142 14 =
   parse_packet rfc_layout (mem_of 4096 (replicate 12 1 @ [8, 0] @ sample_v4)) 4096 4134 14"
  using vlan_tags_are_transparent [OF rfc_headers_layout, of 14 "replicate 12 1" "[[0x88, 0xa8, 0, 5], [0x81, 0, 0, 7]]" "[8, 0] @ sample_v4"]
    pkt_bytes_mem_of [of 4096 "replicate 12 1 @ [0x88, 0xa8, 0, 5, 0x81, 0, 0, 7] @ [8, 0] @ sample_v4"]
    pkt_bytes_mem_of [of 4096 "replicate 12 1 @ [8, 0] @ sample_v4"]
  by (simp add: vlan_tag_def ref_u16_def be_word_def moat_consts sample_v4_def sample_l4_def del: replicate.simps)

text \<open>
  Property C23. IPv6 extension headers hide nothing: a chain of at most three hop-by-hop,
  routing, destination-options or mobility headers of at most 64 bytes in front of the
  upper layer is parsed like the same packet without the chain.
\<close>

theorem extension_headers_are_transparent:
  assumes "rfc_headers H" and "l2_off \<noteq> 0" and "length eth = 14" and "ref_u16 (drop 12 eth) 0 = ETH_P_IPV6"
    and "length pre = 6" and "length addrs = 32"
    and "list_all wf_ext hs" and "length hs \<le> 3" and "sum_list (map ext_size hs) \<le> 64"
    and "\<not> ext_hdr proto" and "proto \<noteq> NH_FRAGMENT"
    and "ext_chain hs proto l4 = (nh, bs)"
    and "pkt_bytes m data data_end = eth @ pre @ [proto, hop] @ addrs @ l4"
    and "pkt_bytes m' data' data_end' = eth @ pre @ [nh, hop] @ addrs @ bs"
  shows "parse_packet H m' data' data_end' l2_off = parse_packet H m data data_end l2_off"
proof -
  have walk: "ref_walk 4 0 nh bs = Some (proto, l4, False)"
    using ref_walk_chain [OF assms(7), of 0 4 proto l4] assms(8-12) by simp
  have plain: "ref_walk 4 0 proto l4 = Some (proto, l4, False)"
    using ref_walk_chain [of "[]" 0 4 proto l4] assms(10,11) by simp
  have ether: "ref_packet False (eth @ pre @ [x, hop] @ addrs @ r) = map_option Some (ref_v6 (pre @ [x, hop] @ addrs @ r))" for x r
    using assms(3,4) by (simp add: ref_packet_def ref_ether.simps ref_u16_append [of "drop 12 eth"] moat_consts)
  have v6: "ref_v6 (pre @ [x, hop] @ addrs @ r) =
      do { (pr, l, frag) \<leftarrow> ref_walk 4 0 x r;
           map_option (mk_parsed FAMILY_V6 (take 16 addrs) (drop 16 addrs))
             (if frag then Some (0, 0, normalize_proto pr True, 0) else ref_l4 pr True l) }" for x r
    using assms(5,6) by (simp add: ref_v6_def nth_append)
  show ?thesis
    using assms(2) by (simp only: parse_packet_ref [OF assms(1)] assms(13,14) ether v6 walk plain simp_thms)
qed

theorem extension_headers_are_transparent_witness:
  "parse_packet rfc_layout (mem_of 4096 (replicate 12 1 @ [0x86, 0xdd] @ [0x60, 0, 0, 0, 0, 12] @ [NH_HOPOPT, 64] @ replicate 32 9 @
       [PROTO_TCP, 0] @ replicate 6 0 @ sample_l4)) 4096 4162 14 =
   parse_packet rfc_layout (mem_of 4096 (replicate 12 1 @ [0x86, 0xdd] @ [0x60, 0, 0, 0, 0, 12] @ [PROTO_TCP, 64] @ replicate 32 9 @
       sample_l4)) 4096 4154 14"
  using extension_headers_are_transparent [OF rfc_headers_layout, of 14 "replicate 12 1 @ [0x86, 0xdd]"
      "[0x60, 0, 0, 0, 0, 12]" "replicate 32 9" "[(NH_HOPOPT, 0, replicate 6 0)]" PROTO_TCP sample_l4]
    pkt_bytes_mem_of [of 4096 "replicate 12 1 @ [0x86, 0xdd] @ [0x60, 0, 0, 0, 0, 12] @ [NH_HOPOPT, 64] @ replicate 32 9 @
       [PROTO_TCP, 0] @ replicate 6 0 @ sample_l4"]
    pkt_bytes_mem_of [of 4096 "replicate 12 1 @ [0x86, 0xdd] @ [0x60, 0, 0, 0, 0, 12] @ [PROTO_TCP, 64] @ replicate 32 9 @ sample_l4"]
  by (simp add: wf_ext_def ext_size_def ext_hdr_def ref_u16_def be_word_def moat_consts sample_l4_def del: replicate.simps)

text \<open>
  The walk over extension headers is complete: when it succeeds on anything
  but a later fragment, the protocol it reports is an upper-layer one, never an extension
  or fragment header, and the offset it returns lies within the packet's first 64 bytes
  after the fixed header.
\<close>

theorem walk_reaches_upper_layer:
  assumes "unat start \<le> 1000" and "walk_v6_ext m data data_end next_hdr start = Some (proto, l4_off, frag)"
  shows "start \<le> l4_off \<and> unat l4_off \<le> unat start + (if frag then 72 else 64) \<and>
    (frag \<or> \<not> (ext_hdr proto \<or> proto = NH_FRAGMENT))"
proof -
  have "ref_walk 4 0 next_hdr (rest m data data_end start) =
      map_option (\<lambda>(p, o', f). (p, rest m data data_end o', f)) (walk_v6_ext m data data_end next_hdr start)"
    using walk_v6_ext_loop_rest [OF assms(1), of start 0 m data data_end 4 next_hdr]
    by (simp add: walk_v6_ext_def moat_consts)
  with assms(2) have "frag \<or> \<not> ext_hdr proto \<and> proto \<noteq> NH_FRAGMENT"
    using ref_walk_upper_layer [of 4 0 next_hdr "rest m data data_end start" proto "rest m data data_end l4_off" frag]
    by (simp del: ref_walk.simps) blast
  with walk_v6_ext_loop_bounds [OF assms(1), of start] assms(2) show ?thesis
    by (auto simp: walk_v6_ext_def word_le_nat_alt)
qed

theorem walk_reaches_upper_layer_witness:
  "walk_v6_ext (mem_of 0 [6, 0, 0, 0, 0, 0, 0, 0, 1, 2, 3, 4]) 0 12 NH_HOPOPT 0 = Some (PROTO_TCP, 8, False) \<and>
   0 \<le> (8 :: usize) \<and> \<not> ext_hdr PROTO_TCP"
proof -
  have four: "(4::nat) = Suc (Suc (Suc (Suc 0)))" by simp
  have w: "walk_v6_ext (mem_of 0 [6, 0, 0, 0, 0, 0, 0, 0, 1, 2, 3, 4]) 0 12 NH_HOPOPT 0 = Some (PROTO_TCP, 8, False)"
    unfolding walk_v6_ext_def MAX_V6_EXT_HDRS_def four
    by (simp add: moat_consts ptr_at_data_def checked_add_def mem_of_def)
  show ?thesis using w walk_reaches_upper_layer [OF _ w] by simp
qed

end
