(* ===== verification/Rule_Walk.thy ===== *)
theory Rule_Walk
  imports Packet
begin

text \<open>
  The rule walk of the data path (\<open>walk_rules\<close>, \<open>src/crates/moatd-ebpf/src/main.rs\<close>) over the
  maps that the loader fills, its contract (the first enabled rule that matches decides,
  the default policy otherwise) as a locale, and the proof that the bounded loop over the
  active bank implements it.
\<close>

section \<open>The maps\<close>

text \<open>
  The state the kernel keeps for the programs, each map by what its lookup returns:
  an array map by its index, \<open>CONNTRACK\<close> by its key, \<open>LOG_TOKENS\<close> by CPU and index, and
  \<open>EVENTS\<close> by the events submitted so far, oldest first.
\<close>

record bpf_maps =
  RULES :: "u32 \<Rightarrow> rule option"
  DEFAULT_POLICY :: "u32 \<Rightarrow> u8 option"
  CONFIG :: "u32 \<Rightarrow> global_config option"
  CONNTRACK :: "conn_key \<Rightarrow> conn_val option"
  EVENTS :: "drop_event list"
  LOG_TOKENS :: "nat \<Rightarrow> u32 \<Rightarrow> log_tokens option"
  IFACE_L2 :: "u32 \<Rightarrow> u8 option"

section \<open>The walk\<close>

text \<open>The guards of the loop body, each \<open>continue\<close> of the source a \<^term>\<open>False\<close>.\<close>

definition rule_matches :: "u8 \<Rightarrow> u32 \<Rightarrow> parsed \<Rightarrow> rule \<Rightarrow> bool" where
  "rule_matches direction ifindex p rule =
     (if r_direction rule \<noteq> direction then False
      else if r_iface_ifindex rule \<noteq> IFACE_ANY \<and> r_iface_ifindex rule \<noteq> ifindex then False
      else if r_proto rule \<noteq> PROTO_ANY \<and> r_proto rule \<noteq> p_proto_byte p then False
      else if r_dst_port_max rule \<noteq> 0 \<and>
              (p_dst_port p < r_dst_port_min rule \<or> p_dst_port p > r_dst_port_max rule) then False
      else if r_src_port_max rule \<noteq> 0 \<and>
              (p_src_port p < r_src_port_min rule \<or> p_src_port p > r_src_port_max rule) then False
      else if \<not> cidr_contains (r_src rule) (p_src_addr p) (p_family p) then False
      else if \<not> cidr_contains (r_dst rule) (p_dst_addr p) (p_family p) then False
      else True)"

text \<open>The loop \<open>for i in 0..RULES_MAX\<close>, \<open>k\<close> iterations left; \<open>- 1\<close> is \<open>u8::MAX\<close>.\<close>

fun walk_rules_loop ::
    "nat \<Rightarrow> bpf_maps \<Rightarrow> u8 \<Rightarrow> u32 \<Rightarrow> parsed \<Rightarrow> u32 \<Rightarrow> u32 \<Rightarrow> u32 \<Rightarrow> u8 \<Rightarrow> u32 \<Rightarrow> u8 \<times> u32" where
  "walk_rules_loop 0 maps direction ifindex p base count i chosen matched_id = (chosen, matched_id)"
| "walk_rules_loop (Suc k) maps direction ifindex p base count i chosen matched_id =
     (if chosen \<noteq> - 1 \<or> i \<ge> count then (chosen, matched_id)
      else case RULES maps (base + i) of
        None \<Rightarrow> (chosen, matched_id)
      | Some rule \<Rightarrow>
          if rule_matches direction ifindex p rule
          then walk_rules_loop k maps direction ifindex p base count (i + 1) (r_action rule) i
          else walk_rules_loop k maps direction ifindex p base count (i + 1) chosen matched_id)"

definition active_window :: "bpf_maps \<Rightarrow> u32 \<times> u32" where
  "active_window maps =
     (case CONFIG maps 0 of
        Some c \<Rightarrow> ((ucast (g_active_bank c) AND 1) * RULES_MAX, ucast (g_rule_count c))
      | None \<Rightarrow> (0, 0))"

definition default_verdict :: "bpf_maps \<Rightarrow> u8 \<Rightarrow> u8" where
  "default_verdict maps direction =
     (let slot = (if direction = DIR_IN then POLICY_IN else POLICY_OUT)
      in case DEFAULT_POLICY maps slot of Some a \<Rightarrow> a | None \<Rightarrow> ACT_ALLOW)"

definition walk_rules :: "bpf_maps \<Rightarrow> u8 \<Rightarrow> u32 \<Rightarrow> parsed \<Rightarrow> u8 \<times> u32" where
  "walk_rules maps direction ifindex p =
     (let (base, count) = active_window maps;
          (chosen, matched_id) =
            walk_rules_loop (unat RULES_MAX) maps direction ifindex p base count 0 (- 1) RULE_ID_DEFAULT
      in if chosen = - 1 then (default_verdict maps direction, RULE_ID_DEFAULT)
         else (chosen, matched_id))"

section \<open>The contract: the first match decides\<close>

text \<open>
  \<open>decide rs d p\<close> is the verdict on packet \<open>p\<close> of the rules \<open>rs\<close> with default \<open>d\<close>. The
  lemmas are what an administrator relies on: only rules that match matter, a rule behind
  a matching one is dead, and the default applies exactly when nothing matches.
\<close>

locale first_match =
  fixes matches :: "'r \<Rightarrow> 'p \<Rightarrow> bool"
    and verdict :: "'r \<Rightarrow> 'v"
    and decide :: "'r list \<Rightarrow> 'v \<Rightarrow> 'p \<Rightarrow> 'v"
  assumes decide_Nil: "decide [] d p = d"
    and decide_Cons: "decide (r # rs) d p = (if matches r p then verdict r else decide rs d p)"
begin

lemma decide_append: "decide (rs @ rs') d p = decide rs (decide rs' d p) p"
  by (induction rs) (simp_all add: decide_Nil decide_Cons)

lemma decide_default: "\<forall>r \<in> set rs. \<not> matches r p \<Longrightarrow> decide rs d p = d"
  by (induction rs) (simp_all add: decide_Nil decide_Cons)

lemma decide_first:
  "\<forall>r \<in> set rs. \<not> matches r p \<Longrightarrow> matches r p \<Longrightarrow> decide (rs @ r # rs') d p = verdict r"
  by (simp add: decide_append decide_default decide_Cons)

lemma decide_shadowed: "r \<in> set rs \<Longrightarrow> matches r p \<Longrightarrow> decide (rs @ rs') d p = decide rs d' p"
  by (induction rs) (auto simp: decide_Cons)

lemma decide_filter: "decide (filter (\<lambda>r. matches r p) rs) d p = decide rs d p"
  by (induction rs) (simp_all add: decide_Nil decide_Cons)

lemma decide_cases: "decide rs d p = d \<or> (\<exists>r \<in> set rs. matches r p \<and> decide rs d p = verdict r)"
  by (induction rs) (auto simp: decide_Nil decide_Cons)

end

text \<open>One rule language implemented in another: \<open>tr\<close> translates rules, \<open>vt\<close> verdicts.\<close>

locale first_match_refinement =
  hi: first_match matches verdict decide + lo: first_match matches' verdict' decide'
  for matches :: "'r \<Rightarrow> 'p \<Rightarrow> bool" and verdict :: "'r \<Rightarrow> 'v" and decide
    and matches' :: "'s \<Rightarrow> 'p \<Rightarrow> bool" and verdict' :: "'s \<Rightarrow> 'w" and decide' +
  fixes refines :: "'r \<Rightarrow> 's \<Rightarrow> bool" and vt :: "'v \<Rightarrow> 'w" and good :: "'p \<Rightarrow> bool"
  assumes refines_matches: "refines r s \<Longrightarrow> good p \<Longrightarrow> matches r p \<longleftrightarrow> matches' s p"
    and refines_verdict: "refines r s \<Longrightarrow> vt (verdict r) = verdict' s"
begin

lemma decide_refines:
  "list_all2 refines rs ss \<Longrightarrow> good p \<Longrightarrow> decide' ss (vt d) p = vt (decide rs d p)"
  by (induction rs ss rule: list_all2_induct)
    (simp_all add: hi.decide_Nil hi.decide_Cons lo.decide_Nil lo.decide_Cons refines_matches refines_verdict)

end

text \<open>A packet as the rules see it: the direction and interface it takes, and its headers.\<close>

type_synonym flow = "u8 \<times> u32 \<times> parsed"

definition flow_matches :: "rule \<Rightarrow> flow \<Rightarrow> bool" where
  "flow_matches r fl = (case fl of (direction, ifindex, p) \<Rightarrow> rule_matches direction ifindex p r)"

primrec rules_decide :: "rule list \<Rightarrow> u8 \<Rightarrow> flow \<Rightarrow> u8" where
  "rules_decide [] d fl = d"
| "rules_decide (r # rs) d fl = (if flow_matches r fl then r_action r else rules_decide rs d fl)"

interpretation wire: first_match flow_matches r_action rules_decide
  by unfold_locales simp_all

text \<open>The position of the deciding rule.\<close>

primrec match_index :: "rule list \<Rightarrow> flow \<Rightarrow> nat option" where
  "match_index [] fl = None"
| "match_index (r # rs) fl = (if flow_matches r fl then Some 0 else map_option Suc (match_index rs fl))"

lemma match_index_None: "match_index rs fl = None \<longleftrightarrow> (\<forall>r \<in> set rs. \<not> flow_matches r fl)"
  by (induction rs) auto

lemma match_index_Some:
  "match_index rs fl = Some i \<longleftrightarrow>
   i < length rs \<and> flow_matches (rs ! i) fl \<and> (\<forall>j<i. \<not> flow_matches (rs ! j) fl)"
proof (induction rs arbitrary: i)
  case (Cons r rs)
  show ?case
  proof (cases i)
    case 0
    then show ?thesis by auto
  next
    case (Suc n)
    then show ?thesis using Cons.IH [of n] by (auto simp: less_Suc_eq_0_disj)
  qed
qed simp

lemma rules_decide_index:
  "rules_decide rs d fl = (case match_index rs fl of None \<Rightarrow> d | Some i \<Rightarrow> r_action (rs ! i))"
  by (induction rs) (auto split: option.split)

section \<open>The loop implements the contract\<close>

text \<open>The rules the walk can see: the slots of the active bank, up to the live count and up to
  the first slot the kernel does not have.\<close>

definition active_rules :: "bpf_maps \<Rightarrow> rule list" where
  "active_rules maps =
     (case active_window maps of (base, count) \<Rightarrow>
        map the (takeWhile (\<lambda>r. r \<noteq> None)
          (map (\<lambda>i. RULES maps (base + of_nat i)) [0..<min (unat RULES_MAX) (unat count)])))"

definition window_from :: "bpf_maps \<Rightarrow> u32 \<Rightarrow> nat \<Rightarrow> nat \<Rightarrow> rule list" where
  "window_from maps base i n =
     map the (takeWhile (\<lambda>r. r \<noteq> None) (map (\<lambda>j. RULES maps (base + of_nat j)) [i..<n]))"

lemma window_from_step:
  "window_from maps base i n =
     (if i < n then case RULES maps (base + of_nat i) of
        None \<Rightarrow> [] | Some r \<Rightarrow> r # window_from maps base (Suc i) n else [])"
  by (auto simp: window_from_def upt_conv_Cons split: option.split)

lemma walk_loop_chosen:
  "chosen \<noteq> - 1 \<Longrightarrow> walk_rules_loop k maps dir ifi p base count i chosen mid = (chosen, mid)"
  by (cases k) simp_all

lemma walk_loop_window:
  "k + i = 256 \<Longrightarrow> \<forall>r \<in> set (window_from maps base i (min 256 (unat count))). r_action r \<noteq> - 1 \<Longrightarrow>
   walk_rules_loop k maps dir ifi p base count (of_nat i) (- 1) mid =
     (case match_index (window_from maps base i (min 256 (unat count))) (dir, ifi, p) of
        None \<Rightarrow> (- 1, mid)
      | Some j \<Rightarrow> (r_action (window_from maps base i (min 256 (unat count)) ! j), of_nat (i + j)))"
proof (induction k arbitrary: i)
  case 0
  then show ?case by (simp add: window_from_def)
next
  case (Suc k)
  have i: "unat (of_nat i :: u32) = i" using Suc.prems(1) by (simp add: unat_of_nat)
  show ?case
  proof (cases "i < unat count")
    case False
    then have "of_nat i \<ge> count" by (simp add: word_le_nat_alt i)
    with False show ?thesis by (simp add: window_from_def)
  next
    case True
    then have lt: "\<not> of_nat i \<ge> count" by (simp add: word_le_nat_alt i)
    have bound: "i < min 256 (unat count)" using True Suc.prems(1) by simp
    have nxt: "(of_nat i :: u32) + 1 = of_nat (Suc i)" by simp
    show ?thesis
    proof (cases "RULES maps (base + of_nat i)")
      case None
      with lt bound show ?thesis by (simp add: window_from_step [of maps base i])
    next
      case (Some r)
      let ?w = "window_from maps base (Suc i) (min 256 (unat count))"
      have w: "window_from maps base i (min 256 (unat count)) = r # ?w"
        using Some bound by (subst window_from_step) simp
      then have ok: "r_action r \<noteq> - 1" "\<forall>r \<in> set ?w. r_action r \<noteq> - 1"
        using Suc.prems(2) by auto
      have "walk_rules_loop (Suc k) maps dir ifi p base count (of_nat i) (- 1) mid =
          (if flow_matches r (dir, ifi, p) then (r_action r, of_nat i)
           else walk_rules_loop k maps dir ifi p base count (of_nat (Suc i)) (- 1) mid)"
        using lt ok(1) by (simp add: Some flow_matches_def walk_loop_chosen add.commute)
      with Suc.IH [of "Suc i"] ok(2) Suc.prems(1) show ?thesis
        by (simp add: w del: walk_rules_loop.simps split: option.split)
    qed
  qed
qed

lemma active_rules_window: "active_window maps = (base, count) \<Longrightarrow>
    active_rules maps = window_from maps base 0 (min 256 (unat count))"
  by (simp add: active_rules_def window_from_def moat_consts)

lemma walk_rules_index:
  assumes "\<forall>r \<in> set (active_rules maps). r_action r \<noteq> - 1"
  shows "walk_rules maps dir ifi p =
    (case match_index (active_rules maps) (dir, ifi, p) of
       None \<Rightarrow> (default_verdict maps dir, RULE_ID_DEFAULT)
     | Some j \<Rightarrow> (r_action (active_rules maps ! j), of_nat j))"
proof -
  obtain base count where w: "active_window maps = (base, count)" by fastforce
  have "r_action (active_rules maps ! j) \<noteq> - 1" if "match_index (active_rules maps) (dir, ifi, p) = Some j" for j
    using that assms by (simp add: match_index_Some)
  with walk_loop_window [of 256 0 maps base count dir ifi p RULE_ID_DEFAULT] assms show ?thesis
    by (simp add: walk_rules_def w active_rules_window [OF w] Let_def RULES_MAX_def split: option.split)
qed

lemma walk_rules_decides:
  assumes "\<forall>r \<in> set (active_rules maps). r_action r \<noteq> - 1"
  shows "fst (walk_rules maps dir ifi p) = rules_decide (active_rules maps) (default_verdict maps dir) (dir, ifi, p)"
  by (simp add: walk_rules_index [OF assms] rules_decide_index split: option.split)

text \<open>The walk depends on nothing but the configuration, the default policy and the live slots
  of the active bank.\<close>

lemma walk_loop_cong:
  assumes "\<And>j. j < 256 \<Longrightarrow> j < unat count \<Longrightarrow> RULES maps (base + of_nat j) = RULES maps' (base + of_nat j)"
  shows "k + i = 256 \<Longrightarrow> walk_rules_loop k maps dir ifi p base count (of_nat i) chosen mid =
    walk_rules_loop k maps' dir ifi p base count (of_nat i) chosen mid"
proof (induction k arbitrary: i chosen mid)
  case (Suc k)
  have i: "unat (of_nat i :: u32) = i" using Suc.prems by (simp add: unat_of_nat)
  have eq: "RULES maps (base + of_nat i) = RULES maps' (base + of_nat i)" if "\<not> of_nat i \<ge> count"
    using that assms [of i] Suc.prems by (simp add: word_le_nat_alt i)
  have nxt: "(of_nat i :: u32) + 1 = of_nat (Suc i)" by simp
  show ?case
    using Suc.IH [of "Suc i"] Suc.prems eq
    by (simp only: walk_rules_loop.simps nxt) (simp split: option.split)
qed simp

lemma walk_rules_cong:
  assumes "CONFIG maps 0 = CONFIG maps' 0" "DEFAULT_POLICY maps = DEFAULT_POLICY maps'"
    and "\<And>base count j. active_window maps = (base, count) \<Longrightarrow> j < 256 \<Longrightarrow> j < unat count \<Longrightarrow>
      RULES maps (base + of_nat j) = RULES maps' (base + of_nat j)"
  shows "walk_rules maps dir ifi p = walk_rules maps' dir ifi p"
proof -
  obtain base count where w: "active_window maps = (base, count)" by fastforce
  then have "active_window maps' = (base, count)" using assms(1) by (simp add: active_window_def)
  moreover have "walk_rules_loop 256 maps dir ifi p base count 0 (- 1) RULE_ID_DEFAULT =
      walk_rules_loop 256 maps' dir ifi p base count 0 (- 1) RULE_ID_DEFAULT"
    using walk_loop_cong [of count maps base maps' 256 0] assms(3) [OF w] by simp
  moreover have "default_verdict maps dir = default_verdict maps' dir"
    using assms(2) by (simp add: default_verdict_def)
  ultimately show ?thesis
    using w by (simp add: walk_rules_def RULES_MAX_def split: prod.split)
qed

text \<open>A packet without ports is outside every port range the loader can write.\<close>

lemma portless_outside_ranges:
  assumes "wf_ports lo hi" "hi \<noteq> 0"
  shows "(0 :: u16) < lo"
  using assms by (auto simp: wf_ports_def)

lemma portless_rule_matches:
  assumes "wf_rule r" "p_src_port p = 0" "p_dst_port p = 0" "rule_matches dir ifi p r"
  shows "r_src_port_max r = 0 \<and> r_dst_port_max r = 0"
  using assms portless_outside_ranges
  by (auto simp: rule_matches_def wf_rule_def split: if_splits)

section \<open>Properties\<close>

definition ssh_rule :: rule where
  "ssh_rule = rule_empty\<lparr>r_action := ACT_DENY, r_proto := PROTO_TCP, r_dst_port_min := 22, r_dst_port_max := 22,
     r_enabled := 1\<rparr>"

definition sample_maps :: bpf_maps where
  "sample_maps =
     \<lparr>RULES = (\<lambda>i. if i < RULES_SLOTS then Some ssh_rule else None),
      DEFAULT_POLICY = (\<lambda>i. if i < 3 then Some ACT_ALLOW else None),
      CONFIG = (\<lambda>i. if i = 0 then Some \<lparr>g_logging_enabled = 0, g_log_level = 0, g_active_bank = 1,
                  g_conntrack_enabled = 1, g_rule_count = 1, g_pad2 = 0\<rparr> else None),
      CONNTRACK = Map.empty, EVENTS = [], LOG_TOKENS = (\<lambda>_ _. None), IFACE_L2 = Map.empty\<rparr>"

lemma active_rules_sample: "active_rules sample_maps = [ssh_rule]"
  by (simp add: active_rules_def active_window_def sample_maps_def moat_consts)

text \<open>
  Property C5. The rule walk is a first-match evaluation of the active bank: it returns the
  action and the position of the first rule that matches the packet, and the default
  policy of the packet's direction with the default rule id when none does.
\<close>

theorem walk_rules_first_match:
  assumes "\<forall>r \<in> set (active_rules maps). r_action r \<noteq> - 1"
  shows "(\<exists>j < length (active_rules maps).
            rule_matches dir ifi p (active_rules maps ! j) \<and>
            (\<forall>i<j. \<not> rule_matches dir ifi p (active_rules maps ! i)) \<and>
            walk_rules maps dir ifi p = (r_action (active_rules maps ! j), of_nat j)) \<or>
         (\<forall>r \<in> set (active_rules maps). \<not> rule_matches dir ifi p r) \<and>
            walk_rules maps dir ifi p = (default_verdict maps dir, RULE_ID_DEFAULT)"
proof (cases "match_index (active_rules maps) (dir, ifi, p)")
  case None
  then have "walk_rules maps dir ifi p = (default_verdict maps dir, RULE_ID_DEFAULT)"
    by (simp add: walk_rules_index [OF assms])
  with None show ?thesis by (auto simp: match_index_None flow_matches_def)
next
  case (Some j)
  then have "walk_rules maps dir ifi p = (r_action (active_rules maps ! j), of_nat j)"
    by (simp add: walk_rules_index [OF assms])
  with Some show ?thesis by (auto simp: match_index_Some flow_matches_def)
qed

theorem walk_rules_first_match_witness: "walk_rules sample_maps DIR_IN 3 sample_parsed = (ACT_DENY, 0)"
  using walk_rules_first_match [of sample_maps DIR_IN 3 sample_parsed]
  by (simp add: active_rules_sample ssh_rule_def rule_empty_def rule_matches_def sample_parsed_def
      cidr_contains_def any_v4_def moat_consts)

text \<open>
  A rule behind one that matches is dead: with the banks of two map states
  agreeing up to a matching rule, the rest of the bank and the default policy do not
  influence the verdict.
\<close>

theorem shadowed_rules_are_dead:
  assumes "active_rules maps = rs @ xs" and "active_rules maps' = rs @ ys"
    and "\<forall>r \<in> set (rs @ xs @ ys). r_action r \<noteq> - 1"
    and "r \<in> set rs" and "rule_matches dir ifi p r"
  shows "fst (walk_rules maps dir ifi p) = fst (walk_rules maps' dir ifi p)"
proof -
  have "flow_matches r (dir, ifi, p)" using assms(5) by (simp add: flow_matches_def)
  note shadow = wire.decide_shadowed [OF assms(4) this]
  show ?thesis
    using assms(1-3) walk_rules_decides [of maps dir ifi p] walk_rules_decides [of maps' dir ifi p]
      shadow [of xs "default_verdict maps dir" 0] shadow [of ys "default_verdict maps' dir" 0]
    by (simp add: ball_Un)
qed

theorem shadowed_rules_are_dead_witness:
  "fst (walk_rules sample_maps DIR_IN 3 sample_parsed) =
   fst (walk_rules (sample_maps\<lparr>DEFAULT_POLICY := (\<lambda>_. Some ACT_REJECT)\<rparr>) DIR_IN 3 sample_parsed)"
  using shadowed_rules_are_dead
    [of sample_maps "[ssh_rule]" "[]" "sample_maps\<lparr>DEFAULT_POLICY := (\<lambda>_. Some ACT_REJECT)\<rparr>" "[]" ssh_rule DIR_IN 3 sample_parsed]
  by (simp add: active_rules_def active_window_def sample_maps_def ssh_rule_def rule_empty_def rule_matches_def
      sample_parsed_def cidr_contains_def any_v4_def moat_consts)

end
