(* ===== verification/Data_Path.thy ===== *)
theory Data_Path
  imports Rule_Walk
begin

text \<open>
  The two eBPF programs (\<open>moat_ingress\<close>, \<open>moat_egress\<close>, \<open>src/crates/moatd-ebpf/src/main.rs\<close>)
  as state transformers on the maps: connection tracking, the rate-limited drop log and
  the verdicts; and their behaviour over arbitrary interleavings of packets on all CPUs,
  updates by the loader, LRU evictions and drains of the ring buffer.
\<close>

section \<open>What the kernel provides\<close>

text \<open>
  \<open>ct_insert\<close> is the update of the LRU hash map (the programs ignore its return code) and
  \<open>events_room\<close> says whether the ring buffer grants a reservation. \<open>ct_lru\<close> is what the
  kernel documents of an LRU map: an update may evict other entries, it never invents one;
  \<open>ct_stores\<close>, that an update of an LRU map makes room for itself, is used only where a
  theorem says that a reply is let through.
\<close>

record kernel =
  hdrs :: headers
  ct_insert :: "(conn_key \<Rightarrow> conn_val option) \<Rightarrow> conn_key \<Rightarrow> conn_val \<Rightarrow> (conn_key \<Rightarrow> conn_val option)"
  events_room :: "drop_event list \<Rightarrow> bool"

definition ct_lru :: "kernel \<Rightarrow> bool" where
  "ct_lru K \<longleftrightarrow> (\<forall>m k v k' v'. ct_insert K m k v k' = Some v' \<longrightarrow> k' = k \<and> v' = v \<or> m k' = Some v')"

definition ct_stores :: "kernel \<Rightarrow> bool" where
  "ct_stores K \<longleftrightarrow> (\<forall>m k v. ct_insert K m k v k = Some v)"

definition plain_kernel :: kernel where
  "plain_kernel = \<lparr>hdrs = rfc_layout, ct_insert = (\<lambda>m k v. m(k \<mapsto> v)), events_room = (\<lambda>es. length es < 2048)\<rparr>"

lemma plain_kernel_laws [simp]: "ct_lru plain_kernel" "ct_stores plain_kernel" "rfc_headers (hdrs plain_kernel)"
  by (auto simp: ct_lru_def ct_stores_def plain_kernel_def)

text \<open>The context of one program run: the packet, the CPU, and the two readings of the coarse
  clock a run can make, before the rule walk and when it logs a drop.\<close>

record packet_ctx =
  x_ifindex :: u32
  x_data :: usize
  x_data_end :: usize
  x_mem :: mem
  x_cpu :: nat
  x_now :: u64
  x_now_log :: u64

definition XDP_ABORTED :: u32 where [moat_consts]: "XDP_ABORTED = 0"
definition XDP_DROP :: u32 where [moat_consts]: "XDP_DROP = 1"
definition XDP_PASS :: u32 where [moat_consts]: "XDP_PASS = 2"
definition TC_ACT_SHOT :: u32 where [moat_consts]: "TC_ACT_SHOT = 2"
definition TC_ACT_PIPE :: u32 where [moat_consts]: "TC_ACT_PIPE = 3"

section \<open>Configuration and log\<close>

definition l2_off_for :: "kernel \<Rightarrow> bpf_maps \<Rightarrow> u32 \<Rightarrow> usize" where
  "l2_off_for K maps ifindex =
     (case IFACE_L2 maps ifindex of Some v \<Rightarrow> ucast v | None \<Rightarrow> eth_hdr_len (hdrs K))"

definition logging_enabled :: "bpf_maps \<Rightarrow> bool" where
  "logging_enabled maps \<longleftrightarrow> (case CONFIG maps 0 of Some c \<Rightarrow> g_logging_enabled c | None \<Rightarrow> 0) \<noteq> 0"

definition conntrack_enabled :: "bpf_maps \<Rightarrow> bool" where
  "conntrack_enabled maps \<longleftrightarrow> (case CONFIG maps 0 of Some c \<Rightarrow> g_conntrack_enabled c | None \<Rightarrow> 1) \<noteq> 0"

text \<open>The body of \<open>try_take_token\<close> on the bucket of one CPU, and the update in the map.\<close>

definition take_token :: "u64 \<Rightarrow> log_tokens \<Rightarrow> bool \<times> log_tokens" where
  "take_token now bucket =
     (let elapsed = saturating_sub now (last_refill_ns bucket);
          bucket =
            (if elapsed \<ge> LOG_BUCKET_REFILL_NS then
               let new_tokens = (ucast (elapsed div LOG_BUCKET_REFILL_NS) :: u32);
                   total = saturating_add (tokens bucket) new_tokens
               in bucket\<lparr>tokens := (if total > LOG_BUCKET_MAX then LOG_BUCKET_MAX else total),
                         last_refill_ns := now\<rparr>
             else bucket)
      in if tokens bucket > 0 then (True, bucket\<lparr>tokens := tokens bucket - 1\<rparr>)
         else (False, bucket))"

definition try_take_token :: "nat \<Rightarrow> u64 \<Rightarrow> bpf_maps \<Rightarrow> bool \<times> bpf_maps" where
  "try_take_token cpu now maps =
     (case LOG_TOKENS maps cpu 0 of
        None \<Rightarrow> (False, maps)
      | Some bucket \<Rightarrow>
          let (ok, bucket') = take_token now bucket
          in (ok, maps\<lparr>LOG_TOKENS := (LOG_TOKENS maps)(cpu := (LOG_TOKENS maps cpu)(0 := Some bucket'))\<rparr>))"

definition drop_event_of :: "packet_ctx \<Rightarrow> parsed \<Rightarrow> u32 \<Rightarrow> drop_event" where
  "drop_event_of x p rule_id =
     \<lparr>e_ts_ns = x_now_log x, e_ifindex = x_ifindex x, e_rule_id = rule_id,
      e_src = p_src_addr p, e_dst = p_dst_addr p, e_src_port = p_src_port p, e_dst_port = p_dst_port p,
      e_proto = p_proto_byte p, e_family = p_family p, e_tcp_flags = 0, e_pad = 0\<rparr>"

definition emit_drop :: "kernel \<Rightarrow> packet_ctx \<Rightarrow> parsed \<Rightarrow> u32 \<Rightarrow> bpf_maps \<Rightarrow> bpf_maps" where
  "emit_drop K x p rule_id maps =
     (if \<not> logging_enabled maps then maps
      else
        let (ok, maps) = try_take_token (x_cpu x) (x_now_log x) maps
        in if \<not> ok then maps
           else if \<not> events_room K (EVENTS maps) then maps
           else maps\<lparr>EVENTS := EVENTS maps @ [drop_event_of x p rule_id]\<rparr>)"

section \<open>The programs\<close>

definition forward_key :: "parsed \<Rightarrow> conn_key" where
  "forward_key p =
     \<lparr>k_proto = p_proto_byte p, k_family = p_family p, k_pad = replicate 2 0,
      k_src_addr = p_src_addr p, k_dst_addr = p_dst_addr p,
      k_src_port = p_src_port p, k_dst_port = p_dst_port p\<rparr>"

definition reverse_key :: "parsed \<Rightarrow> conn_key" where
  "reverse_key p =
     \<lparr>k_proto = p_proto_byte p, k_family = p_family p, k_pad = replicate 2 0,
      k_src_addr = p_dst_addr p, k_dst_addr = p_src_addr p,
      k_src_port = p_dst_port p, k_dst_port = p_src_port p\<rparr>"

definition parse_ctx :: "kernel \<Rightarrow> packet_ctx \<Rightarrow> bpf_maps \<Rightarrow> parsed option option" where
  "parse_ctx K x maps =
     parse_packet (hdrs K) (x_mem x) (x_data x) (x_data_end x) (l2_off_for K maps (x_ifindex x))"

definition try_ingress :: "kernel \<Rightarrow> packet_ctx \<Rightarrow> bpf_maps \<Rightarrow> u32 option \<times> bpf_maps" where
  "try_ingress K x maps =
     (let walk = (\<lambda>parsed.
            let (chosen, rule_id) = walk_rules maps DIR_IN (x_ifindex x) parsed
            in if chosen = ACT_ALLOW then (Some XDP_PASS, maps)
               else (Some XDP_DROP, emit_drop K x parsed rule_id maps))
      in case parse_ctx K x maps of
           None \<Rightarrow> (None, maps)
         | Some None \<Rightarrow> (Some XDP_PASS, maps)
         | Some (Some parsed) \<Rightarrow>
             if is_ndp parsed then (Some XDP_PASS, maps)
             else if conntrack_enabled maps then
               (case CONNTRACK maps (reverse_key parsed) of
                  Some v \<Rightarrow>
                    if saturating_sub (x_now x) (last_seen_ns v) < CONNTRACK_TTL_NS
                    then (Some XDP_PASS, maps)
                    else walk parsed
                | None \<Rightarrow> walk parsed)
             else walk parsed)"

definition try_egress :: "kernel \<Rightarrow> packet_ctx \<Rightarrow> bpf_maps \<Rightarrow> u32 option \<times> bpf_maps" where
  "try_egress K x maps =
     (case parse_ctx K x maps of
        None \<Rightarrow> (None, maps)
      | Some None \<Rightarrow> (Some TC_ACT_PIPE, maps)
      | Some (Some parsed) \<Rightarrow>
          if is_ndp parsed then (Some TC_ACT_PIPE, maps)
          else if \<not> conntrack_enabled maps then
            (let (chosen, rule_id) = walk_rules maps DIR_OUT (x_ifindex x) parsed
             in if chosen \<noteq> ACT_ALLOW then (Some TC_ACT_SHOT, emit_drop K x parsed rule_id maps)
                else (Some TC_ACT_PIPE, maps))
          else
            let key = forward_key parsed;
                now = x_now x;
                record_flow = (\<lambda>m. m\<lparr>CONNTRACK := ct_insert K (CONNTRACK m) key \<lparr>last_seen_ns = now\<rparr>\<rparr>);
                walk =
                  (let (chosen, rule_id) = walk_rules maps DIR_OUT (x_ifindex x) parsed
                   in if chosen \<noteq> ACT_ALLOW then (Some TC_ACT_SHOT, emit_drop K x parsed rule_id maps)
                      else (Some TC_ACT_PIPE, record_flow maps))
            in case CONNTRACK maps key of
                 Some v \<Rightarrow>
                   let age = saturating_sub now (last_seen_ns v)
                   in if age < CONNTRACK_TTL_NS then
                        (Some TC_ACT_PIPE, if age \<ge> CONNTRACK_REFRESH_NS then record_flow maps else maps)
                      else walk
               | None \<Rightarrow> walk)"

definition moat_ingress :: "kernel \<Rightarrow> packet_ctx \<Rightarrow> bpf_maps \<Rightarrow> u32 \<times> bpf_maps" where
  "moat_ingress K x maps =
     (case try_ingress K x maps of (Some a, maps') \<Rightarrow> (a, maps') | (None, maps') \<Rightarrow> (XDP_ABORTED, maps'))"

definition moat_egress :: "kernel \<Rightarrow> packet_ctx \<Rightarrow> bpf_maps \<Rightarrow> u32 \<times> bpf_maps" where
  "moat_egress K x maps =
     (case try_egress K x maps of (Some a, maps') \<Rightarrow> (a, maps') | (None, maps') \<Rightarrow> (TC_ACT_SHOT, maps'))"

section \<open>The verdicts and effects of one run\<close>

lemma enabled_frame [simp]:
  "conntrack_enabled (m\<lparr>CONNTRACK := c\<rparr>) = conntrack_enabled m"
  "logging_enabled (m\<lparr>CONNTRACK := c\<rparr>) = logging_enabled m"
  by (simp_all add: conntrack_enabled_def logging_enabled_def)

definition established :: "bpf_maps \<Rightarrow> conn_key \<Rightarrow> u64 \<Rightarrow> bool" where
  "established maps key now =
     (case CONNTRACK maps key of
        None \<Rightarrow> False
      | Some v \<Rightarrow> saturating_sub now (last_seen_ns v) < CONNTRACK_TTL_NS)"

lemma try_take_token_frame [simp]:
  "RULES (snd (try_take_token cpu now m)) = RULES m"
  "DEFAULT_POLICY (snd (try_take_token cpu now m)) = DEFAULT_POLICY m"
  "CONFIG (snd (try_take_token cpu now m)) = CONFIG m"
  "CONNTRACK (snd (try_take_token cpu now m)) = CONNTRACK m"
  "EVENTS (snd (try_take_token cpu now m)) = EVENTS m"
  "IFACE_L2 (snd (try_take_token cpu now m)) = IFACE_L2 m"
  by (simp_all add: try_take_token_def split: option.split prod.split)

lemma emit_drop_frame [simp]:
  "RULES (emit_drop K x p r m) = RULES m"
  "DEFAULT_POLICY (emit_drop K x p r m) = DEFAULT_POLICY m"
  "CONFIG (emit_drop K x p r m) = CONFIG m"
  "CONNTRACK (emit_drop K x p r m) = CONNTRACK m"
  "IFACE_L2 (emit_drop K x p r m) = IFACE_L2 m"
  using try_take_token_frame [of "x_cpu x" "x_now_log x" m]
  by (simp_all add: emit_drop_def split_beta)

lemma ingress_cases:
  "moat_ingress K x maps =
     (case parse_ctx K x maps of
        None \<Rightarrow> (XDP_ABORTED, maps)
      | Some None \<Rightarrow> (XDP_PASS, maps)
      | Some (Some p) \<Rightarrow>
          if is_ndp p \<or> conntrack_enabled maps \<and> established maps (reverse_key p) (x_now x) \<or>
             fst (walk_rules maps DIR_IN (x_ifindex x) p) = ACT_ALLOW
          then (XDP_PASS, maps)
          else (XDP_DROP, emit_drop K x p (snd (walk_rules maps DIR_IN (x_ifindex x) p)) maps))"
  by (simp add: moat_ingress_def try_ingress_def established_def split_beta Let_def split: option.split)

text \<open>Whether a run of the egress program records the flow, and its verdict.\<close>

definition records_flow :: "kernel \<Rightarrow> packet_ctx \<Rightarrow> bpf_maps \<Rightarrow> parsed \<Rightarrow> bool" where
  "records_flow K x maps p \<longleftrightarrow>
     (if established maps (forward_key p) (x_now x)
      then saturating_sub (x_now x) (last_seen_ns (the (CONNTRACK maps (forward_key p)))) \<ge> CONNTRACK_REFRESH_NS
      else fst (walk_rules maps DIR_OUT (x_ifindex x) p) = ACT_ALLOW)"

lemma egress_cases:
  "moat_egress K x maps =
     (case parse_ctx K x maps of
        None \<Rightarrow> (TC_ACT_SHOT, maps)
      | Some None \<Rightarrow> (TC_ACT_PIPE, maps)
      | Some (Some p) \<Rightarrow>
          if is_ndp p then (TC_ACT_PIPE, maps)
          else if conntrack_enabled maps \<and> established maps (forward_key p) (x_now x) \<or>
             fst (walk_rules maps DIR_OUT (x_ifindex x) p) = ACT_ALLOW
          then (TC_ACT_PIPE,
                if conntrack_enabled maps \<and> records_flow K x maps p
                then maps\<lparr>CONNTRACK := ct_insert K (CONNTRACK maps) (forward_key p) \<lparr>last_seen_ns = x_now x\<rparr>\<rparr>
                else maps)
          else (TC_ACT_SHOT, emit_drop K x p (snd (walk_rules maps DIR_OUT (x_ifindex x) p)) maps))"
  by (simp add: moat_egress_def try_egress_def established_def records_flow_def split_beta Let_def split: option.split)

lemma ingress_frame [simp]:
  "RULES (snd (moat_ingress K x m)) = RULES m"
  "DEFAULT_POLICY (snd (moat_ingress K x m)) = DEFAULT_POLICY m"
  "CONFIG (snd (moat_ingress K x m)) = CONFIG m"
  "IFACE_L2 (snd (moat_ingress K x m)) = IFACE_L2 m"
  "CONNTRACK (snd (moat_ingress K x m)) = CONNTRACK m"
  by (simp_all add: ingress_cases split: option.split)

lemma egress_frame [simp]:
  "RULES (snd (moat_egress K x m)) = RULES m"
  "DEFAULT_POLICY (snd (moat_egress K x m)) = DEFAULT_POLICY m"
  "CONFIG (snd (moat_egress K x m)) = CONFIG m"
  "IFACE_L2 (snd (moat_egress K x m)) = IFACE_L2 m"
  by (simp_all add: egress_cases split: option.split)

text \<open>A change of \<open>CONNTRACK\<close> is an insertion by an accepted outbound packet.\<close>

lemma egress_conntrack:
  "CONNTRACK (snd (moat_egress K x m)) = CONNTRACK m \<or>
   (\<exists>p. parse_ctx K x m = Some (Some p) \<and> \<not> is_ndp p \<and> conntrack_enabled m \<and>
      fst (moat_egress K x m) = TC_ACT_PIPE \<and>
      (established m (forward_key p) (x_now x) \<or> fst (walk_rules m DIR_OUT (x_ifindex x) p) = ACT_ALLOW) \<and>
      CONNTRACK (snd (moat_egress K x m)) = ct_insert K (CONNTRACK m) (forward_key p) \<lparr>last_seen_ns = x_now x\<rparr>)"
proof (cases "parse_ctx K x m")
  case (Some po)
  then show ?thesis by (cases po) (simp_all add: egress_cases)
qed (simp add: egress_cases)

section \<open>The token bucket of the drop log\<close>

lemma take_token_unat:
  fixes b :: log_tokens and now :: u64
  defines "e \<equiv> unat now - unat (last_refill_ns b)"
  shows "unat (tokens (snd (take_token now b))) + (if fst (take_token now b) then 1 else 0) =
      (if e \<ge> 10000000 then min 100 (unat (tokens b) + e div 10000000 mod 2 ^ 32) else unat (tokens b))"
    and "last_refill_ns (snd (take_token now b)) = (if e \<ge> 10000000 then now else last_refill_ns b)"
proof -
  define el where "el = saturating_sub now (last_refill_ns b)"
  have el: "unat el = e" by (simp add: el_def e_def word_nat)
  have ge: "LOG_BUCKET_REFILL_NS \<le> el \<longleftrightarrow> 10000000 \<le> e" by (simp add: word_le_nat_alt el moat_consts)
  have new: "unat (ucast (el div LOG_BUCKET_REFILL_NS) :: u32) = e div 10000000 mod 2 ^ 32"
    by (simp add: unsigned_ucast_eq take_bit_eq_mod unat_div el moat_consts)
  have cap: "unat (if total > LOG_BUCKET_MAX then LOG_BUCKET_MAX else total) = min 100 (unat total)" for total
    by (auto simp: word_less_nat_alt moat_consts min_def)
  have filled: "unat (if saturating_add (tokens b) (ucast (el div LOG_BUCKET_REFILL_NS)) > LOG_BUCKET_MAX
      then LOG_BUCKET_MAX else saturating_add (tokens b) (ucast (el div LOG_BUCKET_REFILL_NS))) =
      min 100 (unat (tokens b) + e div 10000000 mod 2 ^ 32)"
    unfolding cap unat_saturating_add new by (simp add: min_def)
  have take: "unat (t - 1) + 1 = unat t" if "t > 0" for t :: u32
    using that by (subst unat_minus_exact) (auto simp: word_le_nat_alt word_less_nat_alt)
  define b1 where "b1 = (if LOG_BUCKET_REFILL_NS \<le> el
    then b\<lparr>tokens := (if saturating_add (tokens b) (ucast (el div LOG_BUCKET_REFILL_NS)) > LOG_BUCKET_MAX
      then LOG_BUCKET_MAX else saturating_add (tokens b) (ucast (el div LOG_BUCKET_REFILL_NS))), last_refill_ns := now\<rparr>
    else b)"
  have tt: "take_token now b = (if tokens b1 > 0 then (True, b1\<lparr>tokens := tokens b1 - 1\<rparr>) else (False, b1))"
    by (simp only: take_token_def Let_def el_def b1_def)
  have b1: "unat (tokens b1) = (if e \<ge> 10000000 then min 100 (unat (tokens b) + e div 10000000 mod 2 ^ 32) else unat (tokens b))"
    using filled by (simp add: b1_def ge del: unsigned_numeral)
  show "unat (tokens (snd (take_token now b))) + (if fst (take_token now b) then 1 else 0) =
      (if e \<ge> 10000000 then min 100 (unat (tokens b) + e div 10000000 mod 2 ^ 32) else unat (tokens b))"
    unfolding b1 [symmetric] using take [of "tokens b1"] by (simp add: tt)
  show "last_refill_ns (snd (take_token now b)) = (if e \<ge> 10000000 then now else last_refill_ns b)"
    by (simp add: tt b1_def ge)
qed

lemma take_token_le_max: "tokens b \<le> LOG_BUCKET_MAX \<Longrightarrow> tokens (snd (take_token now b)) \<le> LOG_BUCKET_MAX"
  using take_token_unat(1) [of now b] by (auto simp: word_le_nat_alt moat_consts split: if_splits)

text \<open>Calls of \<open>try_take_token\<close> on one CPU at the times \<open>ts\<close>: how many were granted.\<close>

primrec grants :: "u64 list \<Rightarrow> log_tokens \<Rightarrow> nat" where
  "grants [] b = 0"
| "grants (t # ts) b =
     (if fst (take_token t b) then 1 else 0) + grants ts (snd (take_token t b))"

lemma floors_add: "a div n + b div n \<le> (a + b) div (n :: nat)"
  by (metis div_add1_eq le_add1)

lemma grants_bound:
  assumes "sorted_wrt (\<le>) (last_refill_ns b # ts)" and "\<forall>t \<in> set ts. t \<le> stop"
    and "last_refill_ns b \<le> stop"
  shows "grants ts b \<le> unat (tokens b) + (unat stop - unat (last_refill_ns b)) div 10000000"
  using assms
proof (induction ts arbitrary: b)
  case (Cons t ts)
  define b' where "b' = snd (take_token t b)"
  let ?e = "unat t - unat (last_refill_ns b)"
  have le: "last_refill_ns b \<le> t" "t \<le> stop" using Cons.prems by auto
  have last: "last_refill_ns b' = (if ?e \<ge> 10000000 then t else last_refill_ns b)"
    by (simp add: b'_def take_token_unat(2))
  have IH: "grants ts b' \<le> unat (tokens b') + (unat stop - unat (last_refill_ns b')) div 10000000"
    using Cons.prems by (intro Cons.IH) (auto simp: last)
  have step: "unat (tokens b') + (if fst (take_token t b) then 1 else 0) \<le>
      unat (tokens b) + (if ?e \<ge> 10000000 then ?e div 10000000 else 0)"
    using take_token_unat(1) [of t b] mod_less_eq_dividend [of "?e div 10000000" "2 ^ 32"]
    by (simp add: b'_def min.coboundedI2 split: if_splits)
  have "?e div 10000000 + (unat stop - unat t) div 10000000 \<le> (unat stop - unat (last_refill_ns b)) div 10000000"
    using floors_add [of ?e 10000000 "unat stop - unat t"] le by (simp add: word_le_nat_alt)
  with IH step last show ?case by (auto simp: b'_def [symmetric] split: if_splits)
qed simp

section \<open>Runs of the data path\<close>

text \<open>
  What can happen to the maps: a packet in either direction on any CPU, the loader writing
  policy (any values: the tables it really writes are the subject of the daemon), an
  eviction by the kernel, and the daemon draining the ring buffer.
\<close>

datatype dp_event =
    Ingress packet_ctx
  | Egress packet_ctx
  | Load bpf_maps
  | Evict conn_key
  | Drain

fun dp_step :: "kernel \<Rightarrow> dp_event \<Rightarrow> bpf_maps \<Rightarrow> bpf_maps" where
  "dp_step K (Ingress x) s = snd (moat_ingress K x s)"
| "dp_step K (Egress x) s = snd (moat_egress K x s)"
| "dp_step K (Load s') s =
     s\<lparr>RULES := RULES s', DEFAULT_POLICY := DEFAULT_POLICY s', CONFIG := CONFIG s', IFACE_L2 := IFACE_L2 s'\<rparr>"
| "dp_step K (Evict k) s = s\<lparr>CONNTRACK := (CONNTRACK s)(k := None)\<rparr>"
| "dp_step K Drain s = s\<lparr>EVENTS := []\<rparr>"

text \<open>\<open>dp_run K s0 h s\<close>: from \<open>s0\<close>, the history \<open>h\<close> of events, each with the maps it found,
  leads to \<open>s\<close>.\<close>

inductive dp_run :: "kernel \<Rightarrow> bpf_maps \<Rightarrow> (dp_event \<times> bpf_maps) list \<Rightarrow> bpf_maps \<Rightarrow> bool"
  for K s0 where
  dp_start: "dp_run K s0 [] s0"
| dp_more: "dp_run K s0 h s \<Longrightarrow> dp_run K s0 (h @ [(e, s)]) (dp_step K e s)"

inductive_cases dp_run_NilE: "dp_run K s0 [] s"

text \<open>The outbound packets of a history that were accepted while connections were tracked;
  \<open>allowed_out\<close> those among them that the rules themselves accepted.\<close>

definition accepted_out :: "kernel \<Rightarrow> (dp_event \<times> bpf_maps) list \<Rightarrow> conn_key \<Rightarrow> u64 \<Rightarrow> bool" where
  "accepted_out K h k t \<longleftrightarrow>
     (\<exists>x s p. (Egress x, s) \<in> set h \<and> parse_ctx K x s = Some (Some p) \<and> \<not> is_ndp p \<and>
        forward_key p = k \<and> x_now x = t \<and> conntrack_enabled s \<and> fst (moat_egress K x s) = TC_ACT_PIPE)"

definition allowed_out :: "kernel \<Rightarrow> (dp_event \<times> bpf_maps) list \<Rightarrow> conn_key \<Rightarrow> bool" where
  "allowed_out K h k \<longleftrightarrow>
     (\<exists>x s p. (Egress x, s) \<in> set h \<and> parse_ctx K x s = Some (Some p) \<and> \<not> is_ndp p \<and>
        forward_key p = k \<and> conntrack_enabled s \<and> fst (walk_rules s DIR_OUT (x_ifindex x) p) = ACT_ALLOW)"

lemma accepted_out_mono: "accepted_out K h k t \<Longrightarrow> accepted_out K (h @ h') k t"
  by (auto simp: accepted_out_def)

lemma allowed_out_mono: "allowed_out K h k \<Longrightarrow> allowed_out K (h @ h') k"
  by (auto simp: allowed_out_def)

lemma dp_step_conntrack:
  "CONNTRACK (dp_step K e s) = CONNTRACK s \<or>
   (\<exists>k. e = Evict k \<and> CONNTRACK (dp_step K e s) = (CONNTRACK s)(k := None)) \<or>
   (\<exists>x p. e = Egress x \<and> parse_ctx K x s = Some (Some p) \<and> \<not> is_ndp p \<and> conntrack_enabled s \<and>
      fst (moat_egress K x s) = TC_ACT_PIPE \<and>
      (established s (forward_key p) (x_now x) \<or> fst (walk_rules s DIR_OUT (x_ifindex x) p) = ACT_ALLOW) \<and>
      CONNTRACK (dp_step K e s) = ct_insert K (CONNTRACK s) (forward_key p) \<lparr>last_seen_ns = x_now x\<rparr>)"
proof (cases e)
  case (Egress x)
  then show ?thesis using egress_conntrack [of K x s] by simp
qed simp_all

text \<open>Every tracked connection is one that an accepted outbound packet opened.\<close>

lemma conntrack_justified:
  assumes "dp_run K s0 h s" and "ct_lru K" and "CONNTRACK s0 = Map.empty" and "CONNTRACK s k = Some v"
  shows "accepted_out K h k (last_seen_ns v) \<and> allowed_out K h k"
  using assms(1,4)
proof (induction arbitrary: k v)
  case dp_start
  then show ?case using assms(3) by simp
next
  case (dp_more h s e)
  have old: "accepted_out K (h @ [(e, s)]) k (last_seen_ns v) \<and> allowed_out K (h @ [(e, s)]) k"
    if "CONNTRACK s k = Some v" for k v
    using dp_more.IH [OF that] accepted_out_mono allowed_out_mono by blast
  from dp_step_conntrack [of K e s] consider
      (same) "CONNTRACK (dp_step K e s) = CONNTRACK s"
    | (evict) k' where "CONNTRACK (dp_step K e s) = (CONNTRACK s)(k' := None)"
    | (insert) x p where "e = Egress x" "parse_ctx K x s = Some (Some p)" "\<not> is_ndp p" "conntrack_enabled s"
        "fst (moat_egress K x s) = TC_ACT_PIPE"
        "established s (forward_key p) (x_now x) \<or> fst (walk_rules s DIR_OUT (x_ifindex x) p) = ACT_ALLOW"
        "CONNTRACK (dp_step K e s) = ct_insert K (CONNTRACK s) (forward_key p) \<lparr>last_seen_ns = x_now x\<rparr>"
    by blast
  then show ?case
  proof cases
    case same
    then show ?thesis using old dp_more.prems by simp
  next
    case evict
    then show ?thesis using old dp_more.prems by (simp split: if_splits)
  next
    case (insert x p)
    note e = insert(1) and run = insert(2-5) and auth = insert(6) and new = insert(7)
    have "k = forward_key p \<and> v = \<lparr>last_seen_ns = x_now x\<rparr> \<or> CONNTRACK s k = Some v"
      using assms(2) dp_more.prems new unfolding ct_lru_def by metis
    moreover have "accepted_out K (h @ [(e, s)]) (forward_key p) (x_now x)"
      using run e by (auto simp: accepted_out_def)
    moreover have "allowed_out K (h @ [(e, s)]) (forward_key p)"
      using auth
    proof
      assume "established s (forward_key p) (x_now x)"
      then show ?thesis using old by (auto simp: established_def split: option.splits)
    next
      assume "fst (walk_rules s DIR_OUT (x_ifindex x) p) = ACT_ALLOW"
      then show ?thesis using run e by (auto simp: allowed_out_def)
    qed
    ultimately show ?thesis using old by auto
  qed
qed

text \<open>The buckets stay within their bound, whatever happens.\<close>

definition buckets_ok :: "bpf_maps \<Rightarrow> bool" where
  "buckets_ok s \<longleftrightarrow> (\<forall>cpu b. LOG_TOKENS s cpu 0 = Some b \<longrightarrow> tokens b \<le> LOG_BUCKET_MAX)"

lemma emit_drop_buckets: "buckets_ok m \<Longrightarrow> buckets_ok (emit_drop K x p r m)"
  by (auto simp: emit_drop_def try_take_token_def buckets_ok_def split_beta Let_def take_token_le_max split: option.splits)

interpretation buckets: event_invariant "dp_step K" "\<lambda>_. True" buckets_ok
proof
  fix s e assume ok: "buckets_ok s"
  have frame: "buckets_ok (s\<lparr>CONNTRACK := c\<rparr>)" "buckets_ok (s\<lparr>EVENTS := []\<rparr>)"
    "buckets_ok (s\<lparr>RULES := r, DEFAULT_POLICY := d, CONFIG := g, IFACE_L2 := l\<rparr>)" for c r d g l
    using ok by (simp_all add: buckets_ok_def)
  with ok show "buckets_ok (dp_step K e s)"
    by (cases e) (simp_all add: ingress_cases egress_cases emit_drop_buckets split: option.split)
qed

section \<open>Properties\<close>

text \<open>A closed host for the examples: no rules, inbound denied, outbound allowed, tracking and
  logging on, interface 3 without a link-layer header.\<close>

definition closed_maps :: bpf_maps where
  "closed_maps = sample_maps\<lparr>
     DEFAULT_POLICY := (\<lambda>i. if i = POLICY_IN then Some ACT_DENY else if i < 3 then Some ACT_ALLOW else None),
     CONFIG := (\<lambda>i. if i = 0 then Some \<lparr>g_logging_enabled = 1, g_log_level = 0, g_active_bank = 0,
                  g_conntrack_enabled = 1, g_rule_count = 0, g_pad2 = 0\<rparr> else None),
     LOG_TOKENS := (\<lambda>_ i. if i = 0 then Some \<lparr>tokens = 100, t_pad = [], last_refill_ns = 0\<rparr> else None),
     IFACE_L2 := [3 \<mapsto> 0]\<rparr>"

definition sample_ctx :: "u64 \<Rightarrow> packet_ctx" where
  "sample_ctx now = \<lparr>x_ifindex = 3, x_data = 4096, x_data_end = 4120, x_mem = mem_of 4096 sample_v4,
     x_cpu = 0, x_now = now, x_now_log = now\<rparr>"

definition reply_ctx :: "u64 \<Rightarrow> packet_ctx" where
  "reply_ctx now = (sample_ctx now)\<lparr>x_mem := mem_of 4096 sample_reply_v4\<rparr>"

lemma parse_sample_ctx [simp]:
  "IFACE_L2 m 3 = Some 0 \<Longrightarrow> parse_ctx plain_kernel (sample_ctx now) m = Some (Some sample_parsed)"
  "IFACE_L2 m 3 = Some 0 \<Longrightarrow> parse_ctx plain_kernel (reply_ctx now) m = Some (Some sample_reply)"
  by (simp_all add: parse_ctx_def l2_off_for_def sample_ctx_def reply_ctx_def plain_kernel_def
      parse_packet_sample parse_packet_sample_reply)

lemma sample_simps [simp]:
  "\<not> is_ndp sample_parsed" "\<not> is_ndp sample_reply" "reverse_key sample_reply = forward_key sample_parsed"
  "x_now (sample_ctx t) = t" "x_now (reply_ctx t) = t" "x_ifindex (sample_ctx t) = 3" "x_ifindex (reply_ctx t) = 3"
  by (simp_all add: is_ndp_def sample_parsed_def sample_reply_def moat_consts reverse_key_def forward_key_def
      sample_ctx_def reply_ctx_def)

lemma closed_maps_simps [simp]:
  "IFACE_L2 closed_maps 3 = Some 0" "conntrack_enabled closed_maps" "logging_enabled closed_maps"
  "CONNTRACK closed_maps = Map.empty"
  by (simp_all add: closed_maps_def conntrack_enabled_def logging_enabled_def sample_maps_def)

lemma walk_closed_maps [simp]:
  "walk_rules closed_maps dir ifi p = (if dir = DIR_IN then ACT_DENY else ACT_ALLOW, RULE_ID_DEFAULT)"
proof -
  have "active_rules closed_maps = []"
    by (simp add: active_rules_def active_window_def closed_maps_def sample_maps_def moat_consts)
  then show ?thesis
    by (simp add: walk_rules_index default_verdict_def closed_maps_def sample_maps_def moat_consts)
qed

lemma egress_sample: "moat_egress plain_kernel (sample_ctx t) closed_maps =
    (TC_ACT_PIPE, closed_maps\<lparr>CONNTRACK := [forward_key sample_parsed \<mapsto> \<lparr>last_seen_ns = t\<rparr>]\<rparr>)"
  by (simp add: egress_cases records_flow_def established_def moat_consts) (simp add: plain_kernel_def)

text \<open>
  Property C12. Soundness of connection tracking, over every interleaving of packets, loader
  updates, evictions and drains that starts with an empty table: each tracked connection
  was opened by an outbound packet with that very key that the rules allowed, and its time
  stamp is the time of an accepted outbound packet of that key. No inbound packet can
  create or renew an entry.
\<close>

theorem conntrack_entries_are_justified:
  assumes "dp_run K s0 h s" and "ct_lru K" and "CONNTRACK s0 = Map.empty" and "CONNTRACK s k = Some v"
  shows "accepted_out K h k (last_seen_ns v) \<and> allowed_out K h k"
  using assms by (rule conntrack_justified)

lemma sample_run:
  "dp_run plain_kernel closed_maps [(Egress (sample_ctx 5), closed_maps)]
     (closed_maps\<lparr>CONNTRACK := [forward_key sample_parsed \<mapsto> \<lparr>last_seen_ns = 5\<rparr>]\<rparr>)"
  using dp_more [OF dp_start [of plain_kernel closed_maps], of "Egress (sample_ctx 5)"] by (simp add: egress_sample)

theorem conntrack_entries_are_justified_witness:
  "accepted_out plain_kernel [(Egress (sample_ctx 5), closed_maps)] (forward_key sample_parsed) 5 \<and>
   allowed_out plain_kernel [(Egress (sample_ctx 5), closed_maps)] (forward_key sample_parsed)"
  using conntrack_entries_are_justified [OF sample_run, of "forward_key sample_parsed" "\<lparr>last_seen_ns = 5\<rparr>"] by simp

text \<open>
  Unsolicited traffic is dropped: after any history from an empty table, an
  inbound IP packet that the rules do not allow and for which no outbound packet of the
  reverse connection was accepted within the time to live is dropped (neighbour discovery
  excepted).
\<close>

theorem unsolicited_inbound_is_dropped:
  assumes "dp_run K s0 h s" and "ct_lru K" and "CONNTRACK s0 = Map.empty"
    and "parse_ctx K x s = Some (Some p)" and "\<not> is_ndp p"
    and "fst (walk_rules s DIR_IN (x_ifindex x) p) \<noteq> ACT_ALLOW"
    and "\<And>t. accepted_out K h (reverse_key p) t \<Longrightarrow> saturating_sub (x_now x) t \<ge> CONNTRACK_TTL_NS"
  shows "fst (moat_ingress K x s) = XDP_DROP"
proof -
  have "\<not> established s (reverse_key p) (x_now x)"
  proof (cases "CONNTRACK s (reverse_key p)")
    case (Some v)
    then have "CONNTRACK_TTL_NS \<le> saturating_sub (x_now x) (last_seen_ns v)"
      using assms(7) conntrack_justified [OF assms(1-3)] by blast
    with Some show ?thesis by (simp add: established_def not_less)
  qed (simp add: established_def)
  then show ?thesis using assms(4-6) by (simp add: ingress_cases)
qed

theorem unsolicited_inbound_is_dropped_witness: "fst (moat_ingress plain_kernel (reply_ctx 9) closed_maps) = XDP_DROP"
  by (rule unsolicited_inbound_is_dropped [OF dp_start, where p = sample_reply])
    (simp_all add: accepted_out_def moat_consts)



text \<open>
  What the programs may change: neither touches rules, default policies,
  configuration or interface table; the inbound program leaves the connection table alone;
  and a run that does not drop a packet leaves no trace in the log or in the buckets.
\<close>

theorem programs_change_only_their_own_state:
  "RULES (snd (moat_ingress K x m)) = RULES m \<and> RULES (snd (moat_egress K x m)) = RULES m \<and>
   DEFAULT_POLICY (snd (moat_ingress K x m)) = DEFAULT_POLICY m \<and>
   DEFAULT_POLICY (snd (moat_egress K x m)) = DEFAULT_POLICY m \<and>
   CONFIG (snd (moat_ingress K x m)) = CONFIG m \<and> CONFIG (snd (moat_egress K x m)) = CONFIG m \<and>
   IFACE_L2 (snd (moat_ingress K x m)) = IFACE_L2 m \<and> IFACE_L2 (snd (moat_egress K x m)) = IFACE_L2 m \<and>
   CONNTRACK (snd (moat_ingress K x m)) = CONNTRACK m \<and>
   (fst (moat_ingress K x m) = XDP_DROP \<or> snd (moat_ingress K x m) = m) \<and>
   (fst (moat_egress K x m) = TC_ACT_SHOT \<or>
      EVENTS (snd (moat_egress K x m)) = EVENTS m \<and> LOG_TOKENS (snd (moat_egress K x m)) = LOG_TOKENS m)"
  by (intro conjI; (simp; fail)?) (simp_all add: ingress_cases egress_cases split: option.split)

lemma emit_drop_events:
  "EVENTS (emit_drop K x p r m) = EVENTS m \<or>
   logging_enabled m \<and> EVENTS (emit_drop K x p r m) = EVENTS m @ [drop_event_of x p r]"
  using try_take_token_frame(5) [of "x_cpu x" "x_now_log x" m] by (simp add: emit_drop_def split_beta Let_def)





text \<open>
  Logging recovers: a drop that comes at least one refill interval and less than
  \<open>2^32\<close> intervals (497 days) after the last refill is granted a token even from an empty
  bucket.
\<close>

theorem drop_log_recovers:
  assumes "unat LOG_BUCKET_REFILL_NS \<le> unat now - unat (last_refill_ns b)"
    and "unat now - unat (last_refill_ns b) < 2 ^ 32 * unat LOG_BUCKET_REFILL_NS"
  shows "fst (take_token now b)"
proof (rule ccontr)
  let ?e = "unat now - unat (last_refill_ns b)"
  assume "\<not> fst (take_token now b)"
  moreover have "?e div 10000000 mod 2 ^ 32 > 0"
    using assms by (simp add: moat_consts div_less_iff_less_mult div_greater_zero_iff)
  ultimately have "unat (tokens (snd (take_token now b))) > 0"
    using take_token_unat(1) [of now b] assms(1) by (auto simp: moat_consts)
  with \<open>\<not> fst (take_token now b)\<close> show False
    by (auto simp: take_token_def Let_def word_less_nat_alt split: if_splits)
qed

theorem drop_log_recovers_witness:
  "fst (take_token 10000007 \<lparr>tokens = 0, t_pad = [], last_refill_ns = 7\<rparr>)"
  by (rule drop_log_recovers) (simp_all add: moat_consts)

lemma parse_v4_fragment:
  assumes "parse_v4 H m data data_end off = Some (Some p)"
    and "(from_be16 (ipv4_frag_off H m (data + off)) AND 0x1fff) \<noteq> 0"
  shows "p_src_port p = 0 \<and> p_dst_port p = 0"
proof -
  have "ptr_at_data data data_end off (ipv4_hdr_size H) = Some (data + off)"
    using assms(1) by (auto simp: parse_v4_def ptr_at_data_def bind_eq_Some_conv split: if_splits)
  with assms show ?thesis by (auto simp: parse_v4_def Let_def split: if_splits)
qed


definition sample_fragment :: "u8 list" where
  "sample_fragment = [0x45, 0, 0, 24, 0, 0, 0, 5, 64, 6, 0, 0, 10, 0, 0, 1, 10, 0, 0, 2] @ sample_l4"

lemma parse_v4_sample_fragment:
  "parse_v4 rfc_layout (mem_of 4096 sample_fragment) 4096 4120 0 =
     Some (Some (sample_parsed\<lparr>p_src_port := 0, p_dst_port := 0\<rparr>))"
proof -
  have "ref_v4 sample_fragment = Some (sample_parsed\<lparr>p_src_port := 0, p_dst_port := 0\<rparr>)"
    by (simp add: ref_v4_def sample_fragment_def sample_l4_def sample_parsed_def ref_u16_def mk_parsed_def
        normalize_proto_def be_word_def moat_consts)
  moreover have "pkt_bytes (mem_of 4096 sample_fragment) 4096 4120 = sample_fragment"
    using pkt_bytes_mem_of [of 4096 sample_fragment] by (simp add: sample_fragment_def sample_l4_def)
  ultimately show ?thesis by (simp add: parse_v4_rest rest_def)
qed


text \<open>
  Property C24. A packet the parser cannot account for never gets through: a chain of four or
  more extension headers, which would hide the upper layer from the bounded walk, is
  refused in both directions (aborted inbound, shot outbound) and leaves the maps alone.
\<close>

theorem overlong_extension_chain_is_refused:
  assumes "rfc_headers (hdrs K)" and "l2_off_for K maps (x_ifindex x) \<noteq> 0"
    and "length eth = 14" and "ref_u16 (drop 12 eth) 0 = ETH_P_IPV6"
    and "length pre = 6" and "length addrs = 32"
    and "list_all wf_ext hs" and "4 \<le> length hs" and "ext_chain hs proto upper = (nh, bs)"
    and "pkt_bytes (x_mem x) (x_data x) (x_data_end x) = eth @ pre @ [nh, hop] @ addrs @ bs"
  shows "moat_ingress K x maps = (XDP_ABORTED, maps) \<and> moat_egress K x maps = (TC_ACT_SHOT, maps)"
proof -
  have "ref_walk 4 0 nh bs = None"
    using ref_walk_too_long [OF assms(7,8), of 0 proto upper] assms(9) by simp
  then have "ref_v6 (pre @ [nh, hop] @ addrs @ bs) = None"
    using assms(5,6) by (simp add: ref_v6_def nth_append)
  then have "ref_packet False (eth @ pre @ [nh, hop] @ addrs @ bs) = None"
    using assms(3,4) by (simp add: ref_packet_def ref_ether.simps ref_u16_append [of "drop 12 eth"] moat_consts)
  then have "parse_ctx K x maps = None"
    using assms(2,10) by (simp add: parse_ctx_def parse_packet_ref [OF assms(1)])
  then show ?thesis by (simp add: ingress_cases egress_cases)
qed

definition long_chain_packet :: "u8 list" where
  "long_chain_packet = replicate 12 1 @ [0x86, 0xdd] @ [0x60, 0, 0, 0, 0, 36] @ [NH_HOPOPT, 64] @ replicate 32 9 @
     [NH_DSTOPTS, 0] @ replicate 6 0 @ [NH_ROUTING, 0] @ replicate 6 0 @ [NH_DSTOPTS, 0] @ replicate 6 0 @
     [PROTO_TCP, 0] @ replicate 6 0 @ sample_l4"

theorem overlong_extension_chain_is_refused_witness:
  "fst (moat_ingress plain_kernel (sample_ctx 0\<lparr>x_mem := mem_of 4096 long_chain_packet, x_data_end := 4186\<rparr>) sample_maps) = XDP_ABORTED"
proof -
  let ?x = "sample_ctx 0\<lparr>x_mem := mem_of 4096 long_chain_packet, x_data_end := 4186\<rparr>"
  have pkt: "pkt_bytes (mem_of 4096 long_chain_packet) 4096 4186 = long_chain_packet"
    using pkt_bytes_mem_of [of 4096 long_chain_packet] by (simp add: long_chain_packet_def sample_l4_def)
  have l2: "l2_off_for plain_kernel sample_maps 3 = 14"
    by (simp add: l2_off_for_def sample_maps_def plain_kernel_def rfc_layout_def)
  have x: "pkt_bytes (x_mem ?x) (x_data ?x) (x_data_end ?x) = (replicate 12 1 @ [0x86, 0xdd]) @
      [0x60, 0, 0, 0, 0, 36] @ [NH_HOPOPT, 64] @ replicate 32 9 @ drop 54 long_chain_packet"
    by (simp add: sample_ctx_def pkt) (simp add: long_chain_packet_def)
  have "moat_ingress plain_kernel ?x sample_maps = (XDP_ABORTED, sample_maps) \<and>
      moat_egress plain_kernel ?x sample_maps = (TC_ACT_SHOT, sample_maps)"
    by (rule overlong_extension_chain_is_refused [where hs = "[(NH_HOPOPT, 0, replicate 6 0),
          (NH_DSTOPTS, 0, replicate 6 0), (NH_ROUTING, 0, replicate 6 0), (NH_DSTOPTS, 0, replicate 6 0)]"
          and proto = PROTO_TCP and upper = sample_l4, OF _ _ _ _ _ _ _ _ _ x])
      (simp_all add: l2 wf_ext_def ext_hdr_def ref_u16_def be_word_def moat_consts long_chain_packet_def)
  then show ?thesis by simp
qed

text \<open>
  An established outbound flow outlives a change of policy: while its entry is
  younger than the time to live, its packets pass the outbound program whatever the rules
  and default policies are, as long as tracking stays on, and each packet at least a refresh
  interval after the last one renews the entry.
\<close>

theorem established_flow_outlives_policy:
  assumes "parse_ctx K x maps = Some (Some p)" and "\<not> is_ndp p" and "conntrack_enabled maps"
    and "CONNTRACK maps (forward_key p) = Some v"
    and "saturating_sub (x_now x) (last_seen_ns v) < CONNTRACK_TTL_NS"
  shows "moat_egress K x maps =
    (TC_ACT_PIPE,
     if saturating_sub (x_now x) (last_seen_ns v) \<ge> CONNTRACK_REFRESH_NS
     then maps\<lparr>CONNTRACK := ct_insert K (CONNTRACK maps) (forward_key p) \<lparr>last_seen_ns = x_now x\<rparr>\<rparr> else maps)"
  using assms by (simp add: egress_cases established_def records_flow_def)

theorem established_flow_outlives_policy_witness:
  "fst (moat_egress plain_kernel (sample_ctx 8)
     (closed_maps\<lparr>DEFAULT_POLICY := (\<lambda>_. Some ACT_DENY), CONNTRACK := [forward_key sample_parsed \<mapsto> \<lparr>last_seen_ns = 5\<rparr>]\<rparr>)) =
   TC_ACT_PIPE"
proof -
  let ?m = "closed_maps\<lparr>DEFAULT_POLICY := (\<lambda>_. Some ACT_DENY), CONNTRACK := [forward_key sample_parsed \<mapsto> \<lparr>last_seen_ns = 5\<rparr>]\<rparr>"
  have "conntrack_enabled ?m" by (simp add: conntrack_enabled_def closed_maps_def)
  then show ?thesis
    using established_flow_outlives_policy [of plain_kernel "sample_ctx 8" ?m sample_parsed "\<lparr>last_seen_ns = 5\<rparr>"]
    by (simp add: moat_consts saturating_sub_def)
qed

text \<open>
  Protocols the parser does not know share one tracked connection per pair of
  hosts: a packet of one such protocol from host A to host B opens the way for packets of
  every other such protocol from B to A (for example ESP out, GRE in).
\<close>

theorem unknown_protocols_share_a_flow:
  assumes "wf_parsed p" and "wf_parsed q" and "p_proto_byte p = PROTO_ANY" and "p_proto_byte q = PROTO_ANY"
    and "p_family p = p_family q" and "p_src_addr q = p_dst_addr p" and "p_dst_addr q = p_src_addr p"
  shows "reverse_key q = forward_key p"
  using assms by (simp add: wf_parsed_def reverse_key_def forward_key_def)

theorem unknown_protocols_share_a_flow_witness:
  "map_option forward_key (ref_v4 ([0x45, 0, 0, 20, 0, 0, 0, 0, 64, 50, 0, 0, 10, 0, 0, 1, 10, 0, 0, 2])) =
   map_option reverse_key (ref_v4 ([0x45, 0, 0, 20, 0, 0, 0, 0, 64, 47, 0, 0, 10, 0, 0, 2, 10, 0, 0, 1]))"
proof -
  let ?p = "mk_parsed FAMILY_V4 ([10, 0, 0, 1] @ replicate 12 0) ([10, 0, 0, 2] @ replicate 12 0) (0, 0, PROTO_ANY, 0)"
  let ?q = "mk_parsed FAMILY_V4 ([10, 0, 0, 2] @ replicate 12 0) ([10, 0, 0, 1] @ replicate 12 0) (0, 0, PROTO_ANY, 0)"
  have p: "ref_v4 ([0x45, 0, 0, 20, 0, 0, 0, 0, 64, 50, 0, 0, 10, 0, 0, 1, 10, 0, 0, 2]) = Some ?p"
    and q: "ref_v4 ([0x45, 0, 0, 20, 0, 0, 0, 0, 64, 47, 0, 0, 10, 0, 0, 2, 10, 0, 0, 1]) = Some ?q"
    by (simp_all add: ref_v4_def ref_u16_def ref_l4_def be_word_def moat_consts)
  from unknown_protocols_share_a_flow [OF ref_v4_wf [OF p] ref_v4_wf [OF q]] p q show ?thesis
    by (simp add: mk_parsed_def)
qed

end
