(* ===== verification/Wire.thy ===== *)
theory Wire
  imports Rule_Walk
begin

text \<open>
  From the rules of the user to the rules of the data path (\<open>src/crates/moatd/src/wire.rs\<close>):
  parsing of networks and port ranges, the translation \<open>build_wire_rule\<close>, and the lookups of
  interfaces in sysfs. The second half gives the meaning of a user rule on packets and
  shows that the translation preserves it.
\<close>

section \<open>Parsing\<close>

definition parse_cidr :: "string \<Rightarrow> (wire_err, ip_cidr) result" where
  "parse_cidr s =
     (let (addr_s, prefix_s) =
        (case rsplit_once CHR ''/'' s of Some (a, p) \<Rightarrow> (a, Some p) | None \<Rightarrow> (s, None))
      in case ipv4_from_str addr_s of
           Some addr \<Rightarrow>
             rbind (case prefix_s of
                      Some p \<Rightarrow> (case parse_u8 p of Some n \<Rightarrow> Inr n | None \<Rightarrow> Inl Invalid_prefix)
                    | None \<Rightarrow> Inr 32)
               (\<lambda>pfx. if pfx > 32 then Inl Prefix_out_of_range
                      else Inr \<lparr>c_family = FAMILY_V4, c_prefix = pfx, c_pad = replicate 2 0,
                                c_addr = addr @ replicate 12 0\<rparr>)
         | None \<Rightarrow>
             (case ipv6_from_str addr_s of
                Some addr \<Rightarrow>
                  rbind (case prefix_s of
                           Some p \<Rightarrow> (case parse_u8 p of Some n \<Rightarrow> Inr n | None \<Rightarrow> Inl Invalid_prefix)
                         | None \<Rightarrow> Inr 128)
                    (\<lambda>pfx. if pfx > 128 then Inl Prefix_out_of_range
                           else Inr \<lparr>c_family = FAMILY_V6, c_prefix = pfx, c_pad = replicate 2 0,
                                     c_addr = addr\<rparr>)
              | None \<Rightarrow> Inl (Invalid_ip addr_s)))"

definition parse_port_range :: "string \<Rightarrow> (wire_err, u16 \<times> u16) result" where
  "parse_port_range s =
     (case split_once CHR ''-'' s of
        Some (lo, hi) \<Rightarrow>
          rbind (case parse_u16 lo of Some n \<Rightarrow> Inr n | None \<Rightarrow> Inl Port_range_start) (\<lambda>lo.
          rbind (case parse_u16 hi of Some n \<Rightarrow> Inr n | None \<Rightarrow> Inl Port_range_end) (\<lambda>hi.
          if lo = 0 \<or> hi = 0 \<or> lo > hi then Inl (Invalid_port_range s) else Inr (lo, hi)))
      | None \<Rightarrow>
          rbind (case parse_u16 s of Some n \<Rightarrow> Inr n | None \<Rightarrow> Inl Invalid_port) (\<lambda>p.
          if p = 0 then Inl Port_zero else Inr (p, p)))"

section \<open>Translation of rules\<close>

fun direction_byte :: "direction \<Rightarrow> u8" where
  "direction_byte In = DIR_IN"
| "direction_byte Out = DIR_OUT"

fun action_byte :: "action \<Rightarrow> u8" where
  "action_byte Allow = ACT_ALLOW"
| "action_byte Deny = ACT_DENY"
| "action_byte Reject = ACT_REJECT"

fun proto_byte :: "protocol option \<Rightarrow> u8" where
  "proto_byte None = PROTO_ANY"
| "proto_byte (Some Any) = PROTO_ANY"
| "proto_byte (Some Tcp) = PROTO_TCP"
| "proto_byte (Some Udp) = PROTO_UDP"
| "proto_byte (Some Icmp) = PROTO_ICMP"

definition icmp_proto_for_family :: "u8 \<Rightarrow> u8" where
  "icmp_proto_for_family family = (if family = FAMILY_V6 then PROTO_ICMPV6 else PROTO_ICMP)"

definition any_cidr :: "u8 \<Rightarrow> ip_cidr" where
  "any_cidr family = (if family = FAMILY_V6 then any_v6 else any_v4)"

text \<open>\<open>Option<Result>::transpose\<close> after mapping a parser over an optional field.\<close>

definition parse_opt :: "('a \<Rightarrow> ('e, 'b) result) \<Rightarrow> 'a option \<Rightarrow> ('e, 'b option) result" where
  "parse_opt f x = (case x of None \<Rightarrow> Inr None | Some a \<Rightarrow> rbind (f a) (\<lambda>b. Inr (Some b)))"

definition rule_family :: "ip_cidr option \<Rightarrow> ip_cidr option \<Rightarrow> (wire_err, u8) result" where
  "rule_family src dst =
     (case (src, dst) of
        (Some a, Some b) \<Rightarrow> if c_family a \<noteq> c_family b then Inl Family_mismatch else Inr (c_family a)
      | (Some a, None) \<Rightarrow> Inr (c_family a)
      | (None, Some b) \<Rightarrow> Inr (c_family b)
      | (None, None) \<Rightarrow> Inr FAMILY_V4)"

definition port_bounds :: "string option \<Rightarrow> (wire_err, u16 \<times> u16) result" where
  "port_bounds port = (case port of Some p \<Rightarrow> parse_port_range p | None \<Rightarrow> Inr (0, 0))"

definition build_wire_rule :: "user_rule \<Rightarrow> u32 \<Rightarrow> (wire_err, rule) result" where
  "build_wire_rule user iface_ifindex =
     (if u_proto user = Some Icmp \<and> (u_src_port user \<noteq> None \<or> u_dst_port user \<noteq> None) then Inl Icmp_with_port
      else
        rbind (parse_opt parse_cidr (u_src user)) (\<lambda>parsed_src.
        rbind (parse_opt parse_cidr (u_dst user)) (\<lambda>parsed_dst.
        rbind (rule_family parsed_src parsed_dst) (\<lambda>family.
        let src = (case parsed_src of Some c \<Rightarrow> c | None \<Rightarrow> any_cidr family);
            dst = (case parsed_dst of Some c \<Rightarrow> c | None \<Rightarrow> any_cidr family)
        in rbind (port_bounds (u_src_port user)) (\<lambda>(src_port_min, src_port_max).
           rbind (port_bounds (u_dst_port user)) (\<lambda>(dst_port_min, dst_port_max).
           Inr \<lparr>r_version = SCHEMA_VERSION, r_direction = direction_byte (u_direction user),
                r_action = action_byte (u_action user), r_proto = proto_byte (u_proto user),
                r_iface_ifindex = iface_ifindex, r_src = src, r_dst = dst,
                r_src_port_min = src_port_min, r_src_port_max = src_port_max,
                r_dst_port_min = dst_port_min, r_dst_port_max = dst_port_max,
                r_enabled = 1, r_pad = replicate 3 0\<rparr>))))))"

section \<open>Interfaces\<close>

text \<open>Sysfs, a parameter of the model: what reading a file returns (\<^term>\<open>None\<close> an error), and
  the entries of \<open>/sys/class/net\<close>.\<close>

record sysfs =
  sys_read :: "string \<Rightarrow> string option"
  sys_net :: "string list option"

definition net_file :: "string \<Rightarrow> string \<Rightarrow> string" where
  "net_file name leaf = ''/sys/class/net/'' @ name @ ''/'' @ leaf"

definition sys_u32 :: "sysfs \<Rightarrow> string \<Rightarrow> string \<Rightarrow> u32 option" where
  "sys_u32 fs name leaf = Option.bind (sys_read fs (net_file name leaf)) (\<lambda>s. parse_u32 (trim s))"

definition iface_is_up :: "sysfs \<Rightarrow> string \<Rightarrow> bool" where
  "iface_is_up fs name =
     (case map_option trim (sys_read fs (net_file name ''operstate'')) of
        Some st \<Rightarrow> st = ''up'' \<or> st = ''unknown''
      | None \<Rightarrow> False)"

definition resolve_iface :: "sysfs \<Rightarrow> string option \<Rightarrow> u32" where
  "resolve_iface fs name =
     (case name of
        None \<Rightarrow> IFACE_ANY
      | Some n \<Rightarrow>
          if \<not> iface_is_up fs n then IFACE_ABSENT
          else (case sys_read fs (net_file n ''ifindex'') of
                  Some s \<Rightarrow> (case parse_u32 (trim s) of Some i \<Rightarrow> i | None \<Rightarrow> IFACE_ABSENT)
                | None \<Rightarrow> IFACE_ABSENT))"

definition iface_ifindex :: "sysfs \<Rightarrow> string \<Rightarrow> u32 option" where
  "iface_ifindex fs name = sys_u32 fs name ''ifindex''"

definition iface_l2_len :: "sysfs \<Rightarrow> string \<Rightarrow> u8" where
  "iface_l2_len fs name =
     (case sys_u32 fs name ''type'' of
        Some t \<Rightarrow> if t = 0xfffe \<or> t = 0xffff then 0 else 14
      | None \<Rightarrow> 14)"

definition iface_snapshot :: "sysfs \<Rightarrow> (string \<Rightarrow> (u32 \<times> bool) option)" where
  "iface_snapshot fs =
     (case sys_net fs of
        None \<Rightarrow> Map.empty
      | Some entries \<Rightarrow>
          foldl (\<lambda>out name.
            (case sys_u32 fs name ''ifindex'' of
               Some idx \<Rightarrow> out(name \<mapsto> (idx, iface_is_up fs name))
             | None \<Rightarrow> out)) Map.empty entries)"

section \<open>The translation produces well-formed rules\<close>

lemma parse_cidr_wf: "parse_cidr s = Inr c \<Longrightarrow> wf_cidr c"
  by (auto simp: parse_cidr_def wf_cidr_def not_less Let_def ipv4_from_str_length ipv6_from_str_length
      split: prod.splits option.splits if_splits)

lemma parse_port_range_wf: "parse_port_range s = Inr (lo, hi) \<Longrightarrow> 0 < lo \<and> lo \<le> hi"
  by (auto simp: parse_port_range_def word_gt_0 split: option.splits if_splits prod.splits)

lemma port_bounds_wf: "port_bounds p = Inr (lo, hi) \<Longrightarrow> wf_ports lo hi \<and> (hi = 0 \<longleftrightarrow> p = None)"
  using parse_port_range_wf by (fastforce simp: port_bounds_def wf_ports_def split: option.splits)

lemma rule_family_families:
  assumes "rule_family a b = Inr f" "\<And>c. a = Some c \<Longrightarrow> wf_cidr c" "\<And>c. b = Some c \<Longrightarrow> wf_cidr c"
  shows "c_family (case a of Some c \<Rightarrow> c | None \<Rightarrow> any_cidr f) = f \<and>
    c_family (case b of Some c \<Rightarrow> c | None \<Rightarrow> any_cidr f) = f"
proof -
  have "f = FAMILY_V4 \<or> f = FAMILY_V6"
    using assms by (auto simp: rule_family_def wf_cidr_def split: option.splits if_splits)
  then show ?thesis
    using assms(1) by (auto simp: rule_family_def any_cidr_def any_v4_def any_v6_def split: option.splits if_splits)
qed

lemma parse_opt_Inr: "parse_opt f x = Inr y \<longleftrightarrow>
    (case x of None \<Rightarrow> y = None | Some a \<Rightarrow> (\<exists>b. f a = Inr b \<and> y = Some b))"
  by (auto simp: parse_opt_def split: option.splits)

text \<open>What a successful translation consists of.\<close>

lemma build_wire_ruleE:
  assumes "build_wire_rule u ifx = Inr r"
  obtains a b f s1 s2 d1 d2 where
    "u_proto u \<noteq> Some Icmp \<or> u_src_port u = None \<and> u_dst_port u = None"
    "parse_opt parse_cidr (u_src u) = Inr a" "parse_opt parse_cidr (u_dst u) = Inr b" "rule_family a b = Inr f"
    "port_bounds (u_src_port u) = Inr (s1, s2)" "port_bounds (u_dst_port u) = Inr (d1, d2)"
    "r = \<lparr>r_version = SCHEMA_VERSION, r_direction = direction_byte (u_direction u),
          r_action = action_byte (u_action u), r_proto = proto_byte (u_proto u), r_iface_ifindex = ifx,
          r_src = (case a of Some c \<Rightarrow> c | None \<Rightarrow> any_cidr f), r_dst = (case b of Some c \<Rightarrow> c | None \<Rightarrow> any_cidr f),
          r_src_port_min = s1, r_src_port_max = s2, r_dst_port_min = d1, r_dst_port_max = d2,
          r_enabled = 1, r_pad = replicate 3 0\<rparr>"
proof -
  have g: "u_proto u \<noteq> Some Icmp \<or> u_src_port u = None \<and> u_dst_port u = None"
    using assms by (simp add: build_wire_rule_def split: if_splits)
  with assms obtain a b f sp dp where
    "parse_opt parse_cidr (u_src u) = Inr a" "parse_opt parse_cidr (u_dst u) = Inr b" "rule_family a b = Inr f"
    "port_bounds (u_src_port u) = Inr sp" "port_bounds (u_dst_port u) = Inr dp"
    "r = \<lparr>r_version = SCHEMA_VERSION, r_direction = direction_byte (u_direction u),
          r_action = action_byte (u_action u), r_proto = proto_byte (u_proto u), r_iface_ifindex = ifx,
          r_src = (case a of Some c \<Rightarrow> c | None \<Rightarrow> any_cidr f), r_dst = (case b of Some c \<Rightarrow> c | None \<Rightarrow> any_cidr f),
          r_src_port_min = fst sp, r_src_port_max = snd sp, r_dst_port_min = fst dp, r_dst_port_max = snd dp,
          r_enabled = 1, r_pad = replicate 3 0\<rparr>"
    unfolding build_wire_rule_def Let_def split_beta 
    by (simp only: rbind_eq_Inr sum.distinct sum.inject split: if_splits) (elim exE conjE, rule that, assumption+, erule sym)
  with g show thesis by (intro that [of a b f "fst sp" "snd sp" "fst dp" "snd dp"]) simp_all
qed

lemma direction_byte_range: "direction_byte d \<in> {DIR_IN, DIR_OUT}"
  by (cases d) simp_all

lemma action_byte_range: "action_byte a \<in> {ACT_ALLOW, ACT_DENY, ACT_REJECT}"
  by (cases a) simp_all

lemma proto_byte_range: "proto_byte p \<in> {PROTO_ANY, PROTO_ICMP, PROTO_TCP, PROTO_UDP}"
  by (cases p rule: proto_byte.cases) simp_all

lemma parse_opt_cidr_wf: "parse_opt parse_cidr x = Inr (Some c) \<Longrightarrow> wf_cidr c"
  by (auto simp: parse_opt_Inr parse_cidr_wf split: option.splits)

lemma wf_any_cidr_family: "wf_cidr (any_cidr f)"
  by (simp add: any_cidr_def)

lemma opt_cidr_wf: "parse_opt parse_cidr x = Inr a \<Longrightarrow> wf_cidr (case a of Some c \<Rightarrow> c | None \<Rightarrow> any_cidr f)"
  by (cases a) (simp_all add: parse_opt_cidr_wf wf_any_cidr_family)

lemma build_wire_rule_wf:
  assumes "build_wire_rule u ifx = Inr r"
  shows "wf_rule r" "r_iface_ifindex r = ifx" "r_action r = action_byte (u_action u)"
    "r_direction r = direction_byte (u_direction u)"
proof -
  from assms obtain a b f s1 s2 d1 d2 where parts:
    "parse_opt parse_cidr (u_src u) = Inr a" "parse_opt parse_cidr (u_dst u) = Inr b" "rule_family a b = Inr f"
    "port_bounds (u_src_port u) = Inr (s1, s2)" "port_bounds (u_dst_port u) = Inr (d1, d2)" and
    r: "r = \<lparr>r_version = SCHEMA_VERSION, r_direction = direction_byte (u_direction u),
          r_action = action_byte (u_action u), r_proto = proto_byte (u_proto u), r_iface_ifindex = ifx,
          r_src = (case a of Some c \<Rightarrow> c | None \<Rightarrow> any_cidr f), r_dst = (case b of Some c \<Rightarrow> c | None \<Rightarrow> any_cidr f),
          r_src_port_min = s1, r_src_port_max = s2, r_dst_port_min = d1, r_dst_port_max = d2,
          r_enabled = 1, r_pad = replicate 3 0\<rparr>"
    by (rule build_wire_ruleE)
  have "c_family (case a of Some c \<Rightarrow> c | None \<Rightarrow> any_cidr f) = f \<and>
    c_family (case b of Some c \<Rightarrow> c | None \<Rightarrow> any_cidr f) = f"
    using parts(1,2) by (intro rule_family_families parts(3)) (auto intro: parse_opt_cidr_wf)
  then show "wf_rule r"
    using opt_cidr_wf [OF parts(1)] opt_cidr_wf [OF parts(2)] port_bounds_wf [OF parts(4)] port_bounds_wf [OF parts(5)]
      direction_byte_range [of "u_direction u"] action_byte_range [of "u_action u"] proto_byte_range [of "u_proto u"]
    by (simp add: wf_rule_def r)
  show "r_iface_ifindex r = ifx" "r_action r = action_byte (u_action u)" "r_direction r = direction_byte (u_direction u)"
    by (simp_all add: r)
qed

section \<open>What a user rule means\<close>

text \<open>
  The meaning of the fields of a rule on the fields of a packet, with networks as sets of
  addresses with equal leading bits and ports as intervals; a user rule comes with the
  interface index its name resolves to.
\<close>

definition proto_ok :: "protocol option \<Rightarrow> u8 \<Rightarrow> bool" where
  "proto_ok pr b = (case pr of
     None \<Rightarrow> True | Some Any \<Rightarrow> True | Some Tcp \<Rightarrow> b = PROTO_TCP | Some Udp \<Rightarrow> b = PROTO_UDP | Some Icmp \<Rightarrow> b = PROTO_ICMP)"

definition addr_ok :: "string option \<Rightarrow> u8 \<Rightarrow> u8 list \<Rightarrow> bool" where
  "addr_ok net fam a = (case net of
     None \<Rightarrow> True
   | Some s \<Rightarrow> (case parse_cidr s of
       Inr c \<Rightarrow> c_prefix c = 0 \<or> c_family c = fam \<and> same_prefix (unat (c_prefix c)) (c_addr c) a
     | Inl _ \<Rightarrow> False))"

definition port_ok :: "string option \<Rightarrow> u16 \<Rightarrow> bool" where
  "port_ok port n = (case port of
     None \<Rightarrow> True
   | Some s \<Rightarrow> (case parse_port_range s of Inr (lo, hi) \<Rightarrow> lo \<le> n \<and> n \<le> hi | Inl _ \<Rightarrow> False))"

definition user_matches :: "user_rule \<times> u32 \<Rightarrow> flow \<Rightarrow> bool" where
  "user_matches ur fl = (case (ur, fl) of ((u, ifx), (dir, ifi, p)) \<Rightarrow>
     dir = direction_byte (u_direction u) \<and> (ifx = IFACE_ANY \<or> ifx = ifi) \<and>
     proto_ok (u_proto u) (p_proto_byte p) \<and>
     addr_ok (u_src u) (p_family p) (p_src_addr p) \<and> addr_ok (u_dst u) (p_family p) (p_dst_addr p) \<and>
     port_ok (u_src_port u) (p_src_port p) \<and> port_ok (u_dst_port u) (p_dst_port p))"

primrec user_decide :: "(user_rule \<times> u32) list \<Rightarrow> action \<Rightarrow> flow \<Rightarrow> action" where
  "user_decide [] d fl = d"
| "user_decide (ur # urs) d fl = (if user_matches ur fl then u_action (fst ur) else user_decide urs d fl)"

interpretation user: first_match user_matches "u_action \<circ> fst" user_decide
  by unfold_locales simp_all

subsection \<open>The translation preserves the meaning\<close>

lemma proto_ok_byte: "proto_ok pr b \<longleftrightarrow> proto_byte pr = PROTO_ANY \<or> proto_byte pr = b"
  by (cases pr rule: proto_byte.cases) (auto simp: proto_ok_def moat_consts)

lemma addr_ok_cidr:
  assumes "parse_opt parse_cidr net = Inr a" "length addr = 16"
  shows "addr_ok net fam addr \<longleftrightarrow> cidr_contains (case a of Some c \<Rightarrow> c | None \<Rightarrow> any_cidr f) addr fam"
proof (cases net)
  case None
  with assms(1) show ?thesis
    by (simp add: parse_opt_def addr_ok_def cidr_contains_def any_cidr_def any_v4_def any_v6_def)
next
  case (Some s)
  with assms(1) obtain c where c: "parse_cidr s = Inr c" "a = Some c" by (auto simp: parse_opt_Inr)
  then have "wf_cidr c" by (simp add: parse_cidr_wf)
  with c Some show ?thesis
    by (auto simp: addr_ok_def cidr_contains_same_prefix assms(2) wf_cidr_def word_le_nat_alt moat_consts)
qed

lemma port_ok_bounds:
  assumes "port_bounds port = Inr (lo, hi)"
  shows "port_ok port n \<longleftrightarrow> \<not> (hi \<noteq> 0 \<and> (n < lo \<or> n > hi))"
proof (cases port)
  case (Some s)
  with assms port_bounds_wf [OF assms] show ?thesis by (auto simp: port_ok_def port_bounds_def)
qed (use assms in \<open>simp add: port_ok_def port_bounds_def\<close>)

lemma build_wire_rule_matches:
  assumes "build_wire_rule u ifx = Inr r" "length (p_src_addr p) = 16" "length (p_dst_addr p) = 16"
  shows "rule_matches dir ifi p r \<longleftrightarrow> user_matches (u, ifx) (dir, ifi, p)"
proof -
  from assms(1) obtain a b f s1 s2 d1 d2 where parts:
    "parse_opt parse_cidr (u_src u) = Inr a" "parse_opt parse_cidr (u_dst u) = Inr b"
    "port_bounds (u_src_port u) = Inr (s1, s2)" "port_bounds (u_dst_port u) = Inr (d1, d2)" and
    r: "r = \<lparr>r_version = SCHEMA_VERSION, r_direction = direction_byte (u_direction u),
          r_action = action_byte (u_action u), r_proto = proto_byte (u_proto u), r_iface_ifindex = ifx,
          r_src = (case a of Some c \<Rightarrow> c | None \<Rightarrow> any_cidr f), r_dst = (case b of Some c \<Rightarrow> c | None \<Rightarrow> any_cidr f),
          r_src_port_min = s1, r_src_port_max = s2, r_dst_port_min = d1, r_dst_port_max = d2,
          r_enabled = 1, r_pad = replicate 3 0\<rparr>"
    by (rule build_wire_ruleE)
  show ?thesis
    unfolding rule_matches_def user_matches_def
    using proto_ok_byte addr_ok_cidr [OF parts(1) assms(2)] addr_ok_cidr [OF parts(2) assms(3)]
      port_ok_bounds [OF parts(3)] port_ok_bounds [OF parts(4)] by (simp add: r)
qed

text \<open>The contract between the two rule languages, for well-formed packets.\<close>

definition wire_refines :: "user_rule \<times> u32 \<Rightarrow> rule \<Rightarrow> bool" where
  "wire_refines ur r \<longleftrightarrow> build_wire_rule (fst ur) (snd ur) = Inr r"

definition good_flow :: "flow \<Rightarrow> bool" where
  "good_flow fl = (case fl of (dir, ifi, p) \<Rightarrow> length (p_src_addr p) = 16 \<and> length (p_dst_addr p) = 16)"

interpretation wire_user: first_match_refinement user_matches "u_action \<circ> fst" user_decide
  flow_matches r_action rules_decide wire_refines action_byte good_flow
proof
  fix ur r fl assume "wire_refines ur r" "good_flow fl"
  then show "user_matches ur fl \<longleftrightarrow> flow_matches r fl"
    by (cases ur; cases fl) (simp add: wire_refines_def good_flow_def flow_matches_def build_wire_rule_matches)
next
  fix ur r assume "wire_refines ur r"
  then show "action_byte ((u_action \<circ> fst) ur) = r_action r"
    by (simp add: wire_refines_def build_wire_rule_wf)
qed

section \<open>Interfaces: a snapshot determines every resolution\<close>

lemma snapshot_fold:
  "foldl (\<lambda>out name. (case sys_u32 fs name ''ifindex'' of
       Some idx \<Rightarrow> out(name \<mapsto> (idx, iface_is_up fs name)) | None \<Rightarrow> out)) m names n =
     (if n \<in> set names \<and> sys_u32 fs n ''ifindex'' \<noteq> None
      then Some (the (sys_u32 fs n ''ifindex''), iface_is_up fs n) else m n)"
  by (induction names arbitrary: m) (auto split: option.split)

lemma iface_snapshot_apply:
  "iface_snapshot fs n =
     (case sys_net fs of
        None \<Rightarrow> None
      | Some names \<Rightarrow>
          if n \<in> set names \<and> sys_u32 fs n ''ifindex'' \<noteq> None
          then Some (the (sys_u32 fs n ''ifindex''), iface_is_up fs n) else None)"
  by (simp add: iface_snapshot_def snapshot_fold split: option.split)

text \<open>What the kernel documents of sysfs: an interface has a directory exactly when it is listed.\<close>

definition sysfs_listed :: "sysfs \<Rightarrow> bool" where
  "sysfs_listed fs \<longleftrightarrow> (\<forall>n. (\<forall>names. sys_net fs = Some names \<longrightarrow> n \<notin> set names) \<longrightarrow>
     sys_read fs (net_file n ''ifindex'') = None)"

lemma resolve_iface_snapshot:
  assumes "sysfs_listed fs"
  shows "resolve_iface fs (Some n) =
    (case iface_snapshot fs n of Some (idx, True) \<Rightarrow> idx | _ \<Rightarrow> IFACE_ABSENT)"
proof (cases "sys_read fs (net_file n ''ifindex'')")
  case None
  then show ?thesis
    by (simp add: resolve_iface_def iface_snapshot_apply sys_u32_def split: option.split)
next
  case (Some t)
  then obtain names where "sys_net fs = Some names" "n \<in> set names"
    using assms unfolding sysfs_listed_def by (metis option.distinct(1))
  with Some show ?thesis
    by (simp add: resolve_iface_def iface_snapshot_apply sys_u32_def split: option.split bool.split)
qed

section \<open>Round trips\<close>

lemma dec_string_no_sep: "c \<in> {CHR ''-'', CHR ''/'', CHR '':'', CHR ''.''} \<Longrightarrow> c \<notin> set (dec_string n)"
  by (auto dest!: dec_string_digits simp: digit_char_not_sign dest: sym)

lemma parse_u16_dec: "parse_u16 (dec_string (unat (w :: u16))) = Some w"
  using unsigned_less [of w, where 'a = nat] by (simp add: parse_u16_def parse_uint_dec_string)

lemma parse_u8_dec: "parse_u8 (dec_string (unat (w :: u8))) = Some w"
  using unsigned_less [of w, where 'a = nat] by (simp add: parse_u8_def parse_uint_dec_string)

lemma split_once_at: "c \<notin> set a \<Longrightarrow> split_once c (a @ c # b) = Some (a, b)"
  by (simp add: split_once_Some_iff)

lemma rsplit_once_at: "c \<notin> set b \<Longrightarrow> rsplit_once c (a @ c # b) = Some (a, b)"
  by (simp add: rsplit_once_Some_iff)

lemma parse_port_range_print:
  assumes "0 < lo" "lo \<le> hi"
  shows "parse_port_range (dec_string (unat lo) @ ''-'' @ dec_string (unat hi)) = Inr (lo, hi)"
    and "parse_port_range (dec_string (unat lo)) = Inr (lo, lo)"
proof -
  have "split_once CHR ''-'' (dec_string (unat lo)) = None"
    by (simp add: split_once_None_iff dec_string_no_sep)
  with assms show "parse_port_range (dec_string (unat lo)) = Inr (lo, lo)"
    by (simp add: parse_port_range_def parse_u16_dec)
  have "split_once CHR ''-'' (dec_string (unat lo) @ ''-'' @ dec_string (unat hi)) =
      Some (dec_string (unat lo), dec_string (unat hi))"
    by (simp add: split_once_at dec_string_no_sep)
  with assms show "parse_port_range (dec_string (unat lo) @ ''-'' @ dec_string (unat hi)) = Inr (lo, hi)"
    by (auto simp: parse_port_range_def parse_u16_dec)
qed

lemma parse_cidr_print_v4:
  assumes "length bs = 4" "pfx \<le> 32"
  shows "parse_cidr (ipv4_to_string bs @ ''/'' @ dec_string (unat pfx)) =
    Inr \<lparr>c_family = FAMILY_V4, c_prefix = pfx, c_pad = replicate 2 0, c_addr = bs @ replicate 12 0\<rparr>"
proof -
  have "rsplit_once CHR ''/'' (ipv4_to_string bs @ ''/'' @ dec_string (unat pfx)) =
      Some (ipv4_to_string bs, dec_string (unat pfx))"
    by (simp add: rsplit_once_at dec_string_no_sep)
  with assms show ?thesis
    by (simp add: parse_cidr_def ipv4_from_str_to_string parse_u8_dec not_less)
qed

section \<open>Properties\<close>

definition web_rule :: user_rule where
  "web_rule = \<lparr>u_direction = In, u_action = Allow, u_iface = None, u_proto = Some Tcp, u_src = Some ''10.0.0.0/8'',
     u_dst = None, u_src_port = None, u_dst_port = Some ''80-443''\<rparr>"

text \<open>Evaluation of the parsers on the texts of the examples.\<close>

lemma nat_lits:
  "4 = Suc (Suc (Suc (Suc 0)))" "7 = Suc (Suc (Suc (Suc (Suc (Suc (Suc 0))))))"
  "8 = Suc (Suc (Suc (Suc (Suc (Suc (Suc (Suc 0)))))))"
  by simp_all

lemmas read_defs = read_number_def read_separator_def is_digit_def digit_val_def digits_val_def
lemmas parse_uint_defs = parse_u8_def parse_u16_def parse_u32_def parse_uint_def digit_val_def

lemma read_groups_loopback:
  "read_groups 8 0 ''::1'' = ([], False, ''::1'')" "read_groups 7 0 ''1'' = ([1], False, [])"
  unfolding nat_lits(2,3) by (simp_all add: read_ipv4_addr_def nat_lits(1) read_defs)

lemma ipv6_from_str_loopback: "ipv6_from_str ''::1'' = Some (replicate 15 0 @ [1])"
  by (simp add: ipv6_from_str_def read_ipv6_addr_def read_groups_loopback starts_with_def to_be_bytes16_def)
    (simp add: numeral_eq_Suc)

lemma ipv4_from_str_samples: "ipv4_from_str ''10.0.0.0'' = Some [10, 0, 0, 0]" "ipv4_from_str ''::1'' = None"
  unfolding ipv4_from_str_def read_ipv4_addr_def nat_lits(1) by (simp_all add: read_defs)

lemma parse_cidr_samples:
  "parse_cidr ''10.0.0.0/8'' = Inr \<lparr>c_family = FAMILY_V4, c_prefix = 8, c_pad = replicate 2 0, c_addr = [10, 0, 0, 0] @ replicate 12 0\<rparr>"
  "parse_cidr ''::1'' = Inr \<lparr>c_family = FAMILY_V6, c_prefix = 128, c_pad = replicate 2 0, c_addr = replicate 15 0 @ [1]\<rparr>"
  by (simp_all add: parse_cidr_def rsplit_once_def ipv4_from_str_samples ipv6_from_str_loopback parse_uint_defs)

lemma build_web_rule: "\<exists>r. build_wire_rule web_rule 0 = Inr r"
  by (simp add: build_wire_rule_def web_rule_def parse_opt_def parse_cidr_samples rule_family_def port_bounds_def
      parse_port_range_def parse_uint_defs)

text \<open>
  Property C26. The loader only writes well-formed rules: known schema, direction and action,
  both networks of one family with a prefix in range and 16 address bytes, and each port
  range absent or ordered and free of port 0. The data path's word shifts and its
  zero-means-any port test rely on exactly this.
\<close>

theorem build_wire_rule_well_formed:
  assumes "build_wire_rule u ifx = Inr r"
  shows "wf_rule r \<and> r_iface_ifindex r = ifx \<and> r_action r \<noteq> - 1"
  using build_wire_rule_wf(1,2) [OF assms] by (auto simp: wf_rule_def moat_consts)

theorem build_wire_rule_well_formed_witness: "\<exists>r. build_wire_rule web_rule 0 = Inr r \<and> wf_rule r"
  using build_wire_rule_well_formed [of web_rule 0] build_web_rule by blast




text \<open>
  Port ranges survive printing: the decimal text of any range the data path can
  hold, and of any single port, parses to that range.
\<close>

theorem port_range_round_trip:
  assumes "0 < lo" and "lo \<le> hi"
  shows "parse_port_range (dec_string (unat lo) @ ''-'' @ dec_string (unat hi)) = Inr (lo, hi) \<and>
    parse_port_range (dec_string (unat lo)) = Inr (lo, lo)"
  using parse_port_range_print [OF assms] by simp

theorem port_range_round_trip_witness:
  "parse_port_range (dec_string (unat (80 :: u16)) @ ''-'' @ dec_string (unat (443 :: u16))) = Inr (80, 443)"
  using port_range_round_trip [of 80 443] by simp

text \<open>
  IPv4 networks survive printing: dotted-quad notation with a prefix length parses
  back to exactly that address and prefix.
\<close>

theorem ipv4_cidr_round_trip:
  assumes "length bs = 4" and "pfx \<le> 32"
  shows "parse_cidr (ipv4_to_string bs @ ''/'' @ dec_string (unat pfx)) =
    Inr \<lparr>c_family = FAMILY_V4, c_prefix = pfx, c_pad = replicate 2 0, c_addr = bs @ replicate 12 0\<rparr>"
  using assms by (rule parse_cidr_print_v4)

theorem ipv4_cidr_round_trip_witness:
  "parse_cidr (ipv4_to_string [192, 168, 1, 0] @ ''/'' @ dec_string (unat (24 :: u8))) =
    Inr \<lparr>c_family = FAMILY_V4, c_prefix = 24, c_pad = replicate 2 0, c_addr = [192, 168, 1, 0] @ replicate 12 0\<rparr>"
  by (rule ipv4_cidr_round_trip) simp_all

text \<open>
  A rule for protocol icmp with an IPv6 network matches no packet at all: the
  translation always writes the IPv4 protocol number, which no parsed IPv6 packet has, and a
  nonempty prefix excludes the other family.
\<close>

theorem icmp_rule_on_ipv6_is_dead:
  assumes "build_wire_rule u ifx = Inr r" and "u_proto u = Some Icmp"
    and "u_src u = Some s" and "parse_cidr s = Inr c" and "c_family c = FAMILY_V6" and "c_prefix c \<noteq> 0"
    and "wf_parsed p"
  shows "\<not> rule_matches dir ifi p r"
proof
  assume "rule_matches dir ifi p r"
  then have "user_matches (u, ifx) (dir, ifi, p)"
    using assms(1,7) by (simp add: build_wire_rule_matches wf_parsed_def)
  then have "p_proto_byte p = PROTO_ICMP" "p_family p = FAMILY_V6"
    using assms(2-6) by (simp_all add: user_matches_def proto_ok_def addr_ok_def)
  with assms(7) show False by (auto simp: wf_parsed_def moat_consts)
qed

definition ping6_rule :: user_rule where
  "ping6_rule = \<lparr>u_direction = In, u_action = Allow, u_iface = None, u_proto = Some Icmp, u_src = Some ''::1'',
     u_dst = None, u_src_port = None, u_dst_port = None\<rparr>"

lemma build_ping6_rule: "\<exists>r. build_wire_rule ping6_rule 0 = Inr r"
  by (simp add: build_wire_rule_def ping6_rule_def parse_opt_def parse_cidr_samples rule_family_def port_bounds_def)

theorem icmp_rule_on_ipv6_is_dead_witness:
  "\<exists>r. build_wire_rule ping6_rule 0 = Inr r \<and> \<not> rule_matches DIR_IN 3
     (mk_parsed FAMILY_V6 (replicate 15 0 @ [1]) (replicate 16 0) (7, 7, PROTO_ICMPV6, 128)) r"
proof -
  obtain r where r: "build_wire_rule ping6_rule 0 = Inr r" using build_ping6_rule by blast
  moreover have "wf_parsed (mk_parsed FAMILY_V6 (replicate 15 0 @ [1]) (replicate 16 0) (7, 7, PROTO_ICMPV6, 128))"
    by (simp add: wf_parsed_def mk_parsed_def moat_consts)
  ultimately show ?thesis
    using icmp_rule_on_ipv6_is_dead [OF r _ _ parse_cidr_samples(2)] by (auto simp: ping6_rule_def)
qed

text \<open>
  The link watcher's snapshot is complete for rule resolution: the index a named
  interface resolves to is determined by the snapshot, so two moments with the same snapshot
  resolve every rule alike and only a changed snapshot calls for a new translation.
\<close>

theorem snapshot_determines_resolution:
  assumes "sysfs_listed fs" and "sysfs_listed fs'" and "iface_snapshot fs = iface_snapshot fs'"
  shows "resolve_iface fs name = resolve_iface fs' name"
  using assms by (cases name) (simp_all add: resolve_iface_snapshot, simp add: resolve_iface_def)

definition sample_sysfs :: "string \<Rightarrow> sysfs" where
  "sample_sysfs state =
     \<lparr>sys_read = (\<lambda>path. if path = net_file ''eth0'' ''ifindex'' then Some ''3''
                        else if path = net_file ''eth0'' ''operstate'' then Some state else None),
      sys_net = Some [''eth0'']\<rparr>"

theorem snapshot_determines_resolution_witness:
  "resolve_iface (sample_sysfs ''up'') (Some ''eth0'') = resolve_iface (sample_sysfs ''unknown'') (Some ''eth0'') \<and>
   resolve_iface (sample_sysfs ''up'') (Some ''eth0'') = 3"
proof -
  have l: "sysfs_listed (sample_sysfs st)" for st
    by (auto simp: sysfs_listed_def sample_sysfs_def net_file_def)
  have up: "iface_is_up (sample_sysfs ''up'') ''eth0''" "iface_is_up (sample_sysfs ''unknown'') ''eth0''"
    "resolve_iface (sample_sysfs ''up'') (Some ''eth0'') = 3"
    by (simp_all add: iface_is_up_def resolve_iface_def sample_sysfs_def net_file_def trim_def strip_all.simps
        white_space_def starts_with_def parse_uint_defs)
  have "iface_snapshot (sample_sysfs ''up'') = iface_snapshot (sample_sysfs ''unknown'')"
    by (rule ext) (use up in \<open>simp add: iface_snapshot_apply sys_u32_def sample_sysfs_def net_file_def\<close>)
  from snapshot_determines_resolution [OF l l this] up(3) show ?thesis by simp
qed

end
