(* ===== verification/Store.thy ===== *)
theory Store
  imports Moat_Common
begin

text \<open>
  The rules file (\<open>src/crates/moatd/src/store.rs\<close>): loading with defaults and the atomic
  save through a temporary file. The file system is the map of file contents that other
  processes (and a restart after a crash) see; every call that can fail has its outcome in
  the environment, and \<open>save\<close> also returns all states the file system passes through, so
  that a crash at any point is a prefix of that trace. File modes are not modelled.
\<close>

section \<open>State and environment\<close>

record on_disk =
  d_default_in :: action
  d_default_out :: action
  d_logging_enabled :: bool
  d_rules :: "user_rule list"

type_synonym fs = "string \<Rightarrow> string option"

text \<open>The outcomes of the system calls of one \<open>save\<close> or \<open>load\<close> (\<open>io_write\<close> is the number of
  bytes written before a failure, \<^term>\<open>None\<close> for success) and the serializer.\<close>

record io_env =
  io_mkdir :: bool
  io_remove :: bool
  io_create :: bool
  io_write :: "nat option"
  io_rename :: bool
  io_read :: bool
  to_toml :: "on_disk \<Rightarrow> (err, string) result"
  from_toml :: "string \<Rightarrow> (err, on_disk) result"

text \<open>What the code relies on of the crate \<open>toml\<close>: a document it printed reads back.\<close>

definition toml_round_trip :: "io_env \<Rightarrow> bool" where
  "toml_round_trip io \<longleftrightarrow> (\<forall>od s. to_toml io od = Inr s \<longrightarrow> from_toml io s = Inr od)"

definition CONFIG_DIR :: string where
  "CONFIG_DIR = ''/etc/moatd''"

definition RULES_FILE :: string where
  "RULES_FILE = ''/etc/moatd/rules.toml''"

definition default_in_default :: action where
  "default_in_default = Allow"

definition default_out_default :: action where
  "default_out_default = Allow"

definition on_disk_default :: on_disk where
  "on_disk_default = \<lparr>d_default_in = default_in_default, d_default_out = default_out_default,
     d_logging_enabled = False, d_rules = []\<rparr>"

section \<open>Operations\<close>

definition load :: "io_env \<Rightarrow> fs \<Rightarrow> string \<Rightarrow> (err, on_disk) result" where
  "load io fs path =
     (case fs path of
        None \<Rightarrow> Inr \<lparr>d_default_in = default_in_default, d_default_out = default_out_default,
                     d_logging_enabled = False, d_rules = []\<rparr>
      | Some bytes \<Rightarrow>
          if \<not> io_read io then Inl (Io_error ''reading'') else from_toml io bytes)"

definition tmp_path :: "string \<Rightarrow> string" where
  "tmp_path p = p @ ''.tmp''"

text \<open>\<open>Path::parent\<close> is \<open>None\<close> for the root and the empty path only.\<close>

definition has_parent :: "string \<Rightarrow> bool" where
  "has_parent path \<longleftrightarrow> path \<noteq> '''' \<and> path \<noteq> ''/''"

text \<open>The states of the temporary file while \<open>n\<close> bytes of \<open>body\<close> are written.\<close>

definition writing :: "fs \<Rightarrow> string \<Rightarrow> string \<Rightarrow> nat \<Rightarrow> fs list" where
  "writing fs tmp body n = map (\<lambda>k. fs(tmp \<mapsto> take k body)) [0..<Suc n]"

definition save :: "io_env \<Rightarrow> fs \<Rightarrow> string \<Rightarrow> on_disk \<Rightarrow> (err, unit) result \<times> fs list" where
  "save io fs path od =
     (if has_parent path \<and> \<not> io_mkdir io then (Inl (Io_error ''creating directory''), [fs])
      else case to_toml io od of
        Inl e \<Rightarrow> (Inl e, [fs])
      | Inr body \<Rightarrow>
          let tmp = tmp_path path;
              fs1 = (if io_remove io then fs(tmp := None) else fs)
          in if \<not> io_create io \<or> fs1 tmp \<noteq> None then (Inl (Io_error ''creating''), [fs, fs1])
             else case io_write io of
               Some n \<Rightarrow> (Inl (Io_error ''writing''), [fs, fs1] @ writing fs1 tmp body n)
             | None \<Rightarrow>
                 let states = [fs, fs1] @ writing fs1 tmp body (length body)
                 in if \<not> io_rename io then (Inl (Io_error ''renaming''), states)
                    else (Inr (), states @ [fs1(tmp := None, path \<mapsto> body)]))"

section \<open>Lemmas\<close>

lemma toml_round_tripD: "toml_round_trip io \<Longrightarrow> to_toml io od = Inr s \<Longrightarrow> from_toml io s = Inr od"
  by (simp add: toml_round_trip_def)

lemma tmp_path_neq [simp]: "tmp_path p \<noteq> p" "p \<noteq> tmp_path p"
  by (simp_all add: tmp_path_def)

lemma writing_other:
  "g \<in> set (writing fs (tmp_path path) body n) \<Longrightarrow> p \<noteq> tmp_path path \<Longrightarrow> g p = fs p"
  by (auto simp: writing_def)

lemmas writing_path = writing_other [where p = path and path = path for path, OF _ tmp_path_neq(2)]

lemma writing_not_Nil [simp]: "writing fs tmp body n \<noteq> []"
  by (simp add: writing_def)

lemma save_trace_not_Nil [simp]: "snd (save io fs path od) \<noteq> []"
  by (simp add: save_def Let_def split: sum.split option.split)

text \<open>What other processes can see during a save, and where it ends.\<close>

lemma save_states:
  assumes "g \<in> set (snd (save io fs path od))"
  shows "g path = fs path \<or> (\<exists>body. to_toml io od = Inr body \<and> g path = Some body \<and> fst (save io fs path od) = Inr ())"
  using assms by (auto simp: save_def Let_def writing_path split: if_splits sum.splits option.splits)

lemma save_frame:
  assumes "g \<in> set (snd (save io fs path od))" "p \<noteq> path" "p \<noteq> tmp_path path"
  shows "g p = fs p"
  using assms by (auto simp: save_def Let_def writing_other split: if_splits sum.splits option.splits)

lemma save_result:
  "fst (save io fs path od) = Inr () \<Longrightarrow>
     \<exists>body. to_toml io od = Inr body \<and> last (snd (save io fs path od)) path = Some body \<and>
       last (snd (save io fs path od)) (tmp_path path) = None"
  "fst (save io fs path od) = Inl e \<Longrightarrow> last (snd (save io fs path od)) path = fs path"
proof -
  show "fst (save io fs path od) = Inr () \<Longrightarrow> \<exists>body. to_toml io od = Inr body \<and>
      last (snd (save io fs path od)) path = Some body \<and> last (snd (save io fs path od)) (tmp_path path) = None"
    by (auto simp: save_def Let_def split: if_splits sum.splits option.splits)
  assume "fst (save io fs path od) = Inl e"
  with save_states [of "last (snd (save io fs path od))" io fs path od]
  show "last (snd (save io fs path od)) path = fs path" by (auto simp: last_in_set)
qed

lemma load_depends_on_path: "g path = fs path \<Longrightarrow> load io g path = load io fs path"
  by (simp add: load_def)

section \<open>Properties\<close>

definition sample_io :: io_env where
  "sample_io = \<lparr>io_mkdir = True, io_remove = True, io_create = True, io_write = None, io_rename = True, io_read = True,
     to_toml = (\<lambda>od. if od = on_disk_default then Inr ''empty'' else Inl (Serde_error ''unsupported'')),
     from_toml = (\<lambda>s. if s = ''empty'' then Inr on_disk_default else Inl (Serde_error ''syntax''))\<rparr>"

lemma sample_io_round_trip: "toml_round_trip sample_io"
  by (auto simp: toml_round_trip_def sample_io_def split: if_splits)



text \<open>
  A successful save is durable and complete: loading afterwards returns exactly
  the rule set that was saved, no temporary file is left and no other file is touched; a
  failed save leaves the rules file as it was.
\<close>

theorem load_after_save:
  assumes "toml_round_trip io" and "io_read io"
  shows "case save io fs path od of (res, states) \<Rightarrow>
    (case res of
       Inr _ \<Rightarrow> load io (last states) path = Inr od \<and> last states (tmp_path path) = None
     | Inl _ \<Rightarrow> load io (last states) path = load io fs path) \<and>
    (\<forall>p. p = path \<or> p = tmp_path path \<or> last states p = fs p)"
proof -
  have "last (snd (save io fs path od)) p = fs p \<or> p = path \<or> p = tmp_path path" for p
    using save_frame [of "last (snd (save io fs path od))" io fs path od p] by (auto simp: last_in_set)
  moreover have "load io (last (snd (save io fs path od))) path = Inr od \<and> last (snd (save io fs path od)) (tmp_path path) = None"
    if "fst (save io fs path od) = Inr ()"
    using save_result(1) [OF that] toml_round_tripD [OF assms(1)] assms(2) by (fastforce simp: load_def)
  moreover have "load io (last (snd (save io fs path od))) path = load io fs path"
    if "fst (save io fs path od) = Inl e" for e
    using save_result(2) [OF that] by (rule load_depends_on_path)
  ultimately show ?thesis by (auto simp: split_beta split: sum.split)
qed

theorem load_after_save_witness:
  "load sample_io (last (snd (save sample_io Map.empty RULES_FILE on_disk_default))) RULES_FILE = Inr on_disk_default"
proof -
  have ok: "fst (save sample_io Map.empty RULES_FILE on_disk_default) = Inr ()"
    by (simp add: save_def sample_io_def has_parent_def RULES_FILE_def Let_def)
  have "io_read sample_io" by (simp add: sample_io_def)
  from load_after_save [OF sample_io_round_trip this, where fs = Map.empty and path = RULES_FILE and od = on_disk_default]
  show ?thesis by (simp add: split_beta ok)
qed

end
