(* ===== verification/Daemon.thy ===== *)
theory Daemon
  imports Data_Path Wire Store
begin

text \<open>
  The daemon's control plane (\<open>src/crates/moatd/src/bin/moatd.rs\<close>): translating the rule set
  into the maps (\<open>sync_defaults\<close>, \<open>sync_rules\<close>, \<open>write_config\<close>), the request handlers and
  \<open>dispatch\<close>. Handlers run under one lock, so a run is a sequence of requests; a handler
  that fails keeps the changes it made up to then, as the code does. The packets of the
  data path run between any two writes of the daemon: \<open>map_log\<close> records every state of the
  maps they can see.
\<close>

section \<open>State and environment\<close>

text \<open>\<open>DaemonState\<close> (with the three maps of \<open>Maps\<close> inside the kernel's), the file system, and the
  map states published so far, oldest first.\<close>

record daemon_state =
  attached_interfaces :: "string list"
  ds_on_disk :: on_disk
  kmaps :: bpf_maps
  active_bank :: u8
  disk :: fs
  map_log :: "bpf_maps list"

text \<open>
  The environment of one operation: sysfs, the outcomes of file operations, and the updates
  of the array maps (crate aya and the kernel). \<open>array_law\<close> is the documented behaviour of
  an array map with \<open>n\<close> slots: a successful update changes that slot and no other;
  \<open>array_total\<close>, that an update in range succeeds.
\<close>

record denv =
  net :: sysfs
  io :: io_env
  rules_set :: "(u32 \<Rightarrow> rule option) \<Rightarrow> u32 \<Rightarrow> rule \<Rightarrow> (err, u32 \<Rightarrow> rule option) result"
  policy_set :: "(u32 \<Rightarrow> u8 option) \<Rightarrow> u32 \<Rightarrow> u8 \<Rightarrow> (err, u32 \<Rightarrow> u8 option) result"
  config_set :: "(u32 \<Rightarrow> global_config option) \<Rightarrow> u32 \<Rightarrow> global_config \<Rightarrow> (err, u32 \<Rightarrow> global_config option) result"

definition array_law :: "((u32 \<Rightarrow> 'v option) \<Rightarrow> u32 \<Rightarrow> 'v \<Rightarrow> (err, u32 \<Rightarrow> 'v option) result) \<Rightarrow> bool" where
  "array_law upd \<longleftrightarrow> (\<forall>m i v m'. upd m i v = Inr m' \<longrightarrow> m' = m(i \<mapsto> v))"

definition array_total :: "((u32 \<Rightarrow> 'v option) \<Rightarrow> u32 \<Rightarrow> 'v \<Rightarrow> (err, u32 \<Rightarrow> 'v option) result) \<Rightarrow> u32 \<Rightarrow> bool" where
  "array_total upd n \<longleftrightarrow> (\<forall>m i v. i < n \<longrightarrow> (\<exists>m'. upd m i v = Inr m'))"

definition maps_ok :: "denv \<Rightarrow> bool" where
  "maps_ok E \<longleftrightarrow> array_law (rules_set E) \<and> array_law (policy_set E) \<and> array_law (config_set E)"

definition array_set :: "u32 \<Rightarrow> (u32 \<Rightarrow> 'v option) \<Rightarrow> u32 \<Rightarrow> 'v \<Rightarrow> (err, u32 \<Rightarrow> 'v option) result" where
  "array_set n m i v = (if i < n then Inr (m(i \<mapsto> v)) else Inl (Map_error ''index out of bounds''))"

lemma array_set_laws [simp]: "array_law (array_set n)" "array_total (array_set n) n"
  by (auto simp: array_law_def array_total_def array_set_def split: if_splits)

text \<open>A step of the daemon: a result and the state it leaves, also when it fails.\<close>

type_synonym dstep = "daemon_state \<Rightarrow> (err, unit) result \<times> daemon_state"

definition and_then :: "dstep \<Rightarrow> dstep \<Rightarrow> dstep" where
  "and_then f g w = (case f w of (Inl e, w') \<Rightarrow> (Inl e, w') | (Inr _, w') \<Rightarrow> g w')"

definition fails :: "err \<Rightarrow> dstep" where
  "fails e w = (Inl e, w)"

definition put_maps :: "bpf_maps \<Rightarrow> daemon_state \<Rightarrow> daemon_state" where
  "put_maps m w = w\<lparr>kmaps := m, map_log := map_log w @ [m]\<rparr>"

definition set_policy :: "denv \<Rightarrow> u32 \<Rightarrow> u8 \<Rightarrow> dstep" where
  "set_policy E i a w =
     (case policy_set E (DEFAULT_POLICY (kmaps w)) i a of
        Inl e \<Rightarrow> (Inl e, w)
      | Inr m \<Rightarrow> (Inr (), put_maps ((kmaps w)\<lparr>DEFAULT_POLICY := m\<rparr>) w))"

definition set_rule :: "denv \<Rightarrow> u32 \<Rightarrow> rule \<Rightarrow> dstep" where
  "set_rule E i r w =
     (case rules_set E (RULES (kmaps w)) i r of
        Inl e \<Rightarrow> (Inl e, w)
      | Inr m \<Rightarrow> (Inr (), put_maps ((kmaps w)\<lparr>RULES := m\<rparr>) w))"

definition set_config :: "denv \<Rightarrow> u32 \<Rightarrow> global_config \<Rightarrow> dstep" where
  "set_config E i c w =
     (case config_set E (CONFIG (kmaps w)) i c of
        Inl e \<Rightarrow> (Inl e, w)
      | Inr m \<Rightarrow> (Inr (), put_maps ((kmaps w)\<lparr>CONFIG := m\<rparr>) w))"

section \<open>Synchronisation with the maps\<close>

definition sync_defaults :: "denv \<Rightarrow> dstep" where
  "sync_defaults E w =
     and_then (set_policy E POLICY_IN (action_byte (d_default_in (ds_on_disk w))))
              (set_policy E POLICY_OUT (action_byte (d_default_out (ds_on_disk w)))) w"

definition needs_conntrack :: "on_disk \<Rightarrow> bool" where
  "needs_conntrack od \<longleftrightarrow> d_default_in od \<noteq> Allow \<or>
     list_ex (\<lambda>r. u_direction r = In \<and> u_action r \<noteq> Allow) (d_rules od)"

definition config_of :: "on_disk \<Rightarrow> u8 \<Rightarrow> global_config" where
  "config_of od bank =
     \<lparr>g_logging_enabled = of_bool (d_logging_enabled od), g_log_level = 0, g_active_bank = bank,
      g_conntrack_enabled = of_bool (needs_conntrack od),
      g_rule_count = of_nat (min (length (d_rules od)) (unat RULES_MAX)), g_pad2 = 0\<rparr>"

definition write_config :: "denv \<Rightarrow> dstep" where
  "write_config E w = set_config E 0 (config_of (ds_on_disk w) (active_bank w)) w"

text \<open>The first loop of \<open>sync_rules\<close>: every rule is resolved and translated before anything is
  written (the warning about an absent interface is left out).\<close>

fun translate_rules :: "sysfs \<Rightarrow> user_rule list \<Rightarrow> (err, rule list) result" where
  "translate_rules S [] = Inr []"
| "translate_rules S (ur # urs) =
     (case build_wire_rule ur (resolve_iface S (u_iface ur)) of
        Inl e \<Rightarrow> Inl (Wire_err e)
      | Inr r \<Rightarrow> rbind (translate_rules S urs) (\<lambda>rs. Inr (r # rs)))"

text \<open>The second loop: \<open>i\<close> counts the rules written.\<close>

fun write_rules :: "denv \<Rightarrow> u32 \<Rightarrow> u32 \<Rightarrow> rule list \<Rightarrow> dstep" where
  "write_rules E base i [] w = (Inr (), w)"
| "write_rules E base i (r # rs) w = and_then (set_rule E (base + i) r) (write_rules E base (i + 1) rs) w"

definition sync_rules :: "denv \<Rightarrow> dstep" where
  "sync_rules E w =
     (case translate_rules (net E) (d_rules (ds_on_disk w)) of
        Inl e \<Rightarrow> (Inl e, w)
      | Inr wire_rules \<Rightarrow>
          let target = 1 - active_bank w;
              base = (ucast target :: u32) * RULES_MAX
          in and_then (write_rules E base 0 (take (unat RULES_MAX) wire_rules))
                      (\<lambda>w. write_config E (w\<lparr>active_bank := target\<rparr>)) w)"

definition sync_all :: "denv \<Rightarrow> dstep" where
  "sync_all E = and_then (sync_defaults E) (sync_rules E)"

section \<open>Requests\<close>

definition save_rules :: "denv \<Rightarrow> dstep" where
  "save_rules E w =
     (case save (io E) (disk w) RULES_FILE (ds_on_disk w) of (res, states) \<Rightarrow> (res, w\<lparr>disk := last states\<rparr>))"

definition persist_and_sync :: "denv \<Rightarrow> dstep" where
  "persist_and_sync E = and_then (save_rules E) (sync_all E)"

definition validate_iface_name :: "string \<Rightarrow> (err, unit) result" where
  "validate_iface_name name = (if \<not> valid_iface_name name then Inl (Invalid_iface name) else Inr ())"

definition update_on_disk :: "(on_disk \<Rightarrow> on_disk) \<Rightarrow> daemon_state \<Rightarrow> daemon_state" where
  "update_on_disk f w = w\<lparr>ds_on_disk := f (ds_on_disk w)\<rparr>"

definition add_rule :: "denv \<Rightarrow> user_rule \<Rightarrow> dstep" where
  "add_rule E rule w =
     (if length (d_rules (ds_on_disk w)) \<ge> unat RULES_MAX then fails Rule_limit w
      else case (case u_iface rule of Some name \<Rightarrow> validate_iface_name name | None \<Rightarrow> Inr ()) of
        Inl e \<Rightarrow> fails e w
      | Inr _ \<Rightarrow> persist_and_sync E (update_on_disk (\<lambda>od. od\<lparr>d_rules := d_rules od @ [rule]\<rparr>) w))"

definition remove_nth :: "nat \<Rightarrow> 'a list \<Rightarrow> 'a list" where
  "remove_nth i xs = take i xs @ drop (Suc i) xs"

definition delete_rule :: "denv \<Rightarrow> u32 \<Rightarrow> dstep" where
  "delete_rule E one_based_idx w =
     (if one_based_idx = 0 then fails Index_one_based w
      else
        let idx = unat (one_based_idx - 1)
        in if idx \<ge> length (d_rules (ds_on_disk w)) then fails (No_rule_at one_based_idx) w
           else persist_and_sync E (update_on_disk (\<lambda>od. od\<lparr>d_rules := remove_nth idx (d_rules od)\<rparr>) w))"

definition set_default :: "denv \<Rightarrow> direction \<Rightarrow> action \<Rightarrow> dstep" where
  "set_default E dir action w =
     persist_and_sync E
       (case dir of
          In \<Rightarrow> update_on_disk (\<lambda>od. od\<lparr>d_default_in := action\<rparr>) w
        | Out \<Rightarrow> update_on_disk (\<lambda>od. od\<lparr>d_default_out := action\<rparr>) w)"

definition set_logging :: "denv \<Rightarrow> bool \<Rightarrow> dstep" where
  "set_logging E enabled w = persist_and_sync E (update_on_disk (\<lambda>od. od\<lparr>d_logging_enabled := enabled\<rparr>) w)"

definition reset :: "denv \<Rightarrow> dstep" where
  "reset E w =
     persist_and_sync E (update_on_disk (\<lambda>od. od\<lparr>d_rules := [], d_default_in := Allow, d_default_out := Allow,
       d_logging_enabled := False\<rparr>) w)"

definition to_response :: "(err, unit) result \<times> daemon_state \<Rightarrow> response \<times> daemon_state" where
  "to_response rw = (case rw of (Inr _, w) \<Rightarrow> (Resp_Ok, w) | (Inl e, w) \<Rightarrow> (Resp_Err e, w))"

definition status_of :: "daemon_state \<Rightarrow> status_report" where
  "status_of w =
     \<lparr>s_active = True, s_attached_interfaces = attached_interfaces w,
      s_rules = of_nat (length (d_rules (ds_on_disk w))), s_schema_version = SCHEMA_VERSION,
      s_default_in = d_default_in (ds_on_disk w), s_default_out = d_default_out (ds_on_disk w),
      s_logging_enabled = d_logging_enabled (ds_on_disk w)\<rparr>"

fun dispatch :: "denv \<Rightarrow> request \<Rightarrow> daemon_state \<Rightarrow> response \<times> daemon_state" where
  "dispatch E Req_Ping w = (Resp_Pong, w)"
| "dispatch E Req_Status w = (Resp_Status (status_of w), w)"
| "dispatch E Req_ListRules w = (Resp_Rules (d_rules (ds_on_disk w)), w)"
| "dispatch E (Req_AddRule rule) w = to_response (add_rule E rule w)"
| "dispatch E (Req_DeleteRule idx) w = to_response (delete_rule E idx w)"
| "dispatch E (Req_SetDefault dir action) w = to_response (set_default E dir action w)"
| "dispatch E (Req_SetLogging enabled) w = to_response (set_logging E enabled w)"
| "dispatch E Req_Reset w = to_response (reset E w)"

text \<open>The start of the daemon, from the loaded object and the attached interfaces on: the rules
  file or the defaults, then the first synchronisation, whose failure ends the daemon.\<close>

definition start_daemon :: "denv \<Rightarrow> string list \<Rightarrow> fs \<Rightarrow> bpf_maps \<Rightarrow> (err, daemon_state) result" where
  "start_daemon E attached files m =
     (let od = (case load (io E) files RULES_FILE of Inr o' \<Rightarrow> o' | Inl _ \<Rightarrow> on_disk_default);
          w = \<lparr>attached_interfaces = attached, ds_on_disk = od, kmaps = m, active_bank = 0, disk = files, map_log = []\<rparr>
      in case sync_all E w of (Inl e, _) \<Rightarrow> Inl e | (Inr _, w') \<Rightarrow> Inr w')"

section \<open>What the steps change\<close>

text \<open>A step that only writes maps: it leaves rule set, files and interfaces alone, and logs every
  state it publishes, the last one being the current one.\<close>

definition writes :: "daemon_state \<Rightarrow> daemon_state \<Rightarrow> bool" where
  "writes w w' \<longleftrightarrow> ds_on_disk w' = ds_on_disk w \<and> disk w' = disk w \<and>
     attached_interfaces w' = attached_interfaces w \<and>
     (\<exists>new. map_log w' = map_log w @ new \<and> kmaps w' = last (kmaps w # new))"

definition map_writer :: "dstep \<Rightarrow> bool" where
  "map_writer f \<longleftrightarrow> (\<forall>w. writes w (snd (f w)))"

lemma writes_refl [simp]: "writes w w"
  by (simp add: writes_def)

lemma writes_trans: "writes w w1 \<Longrightarrow> writes w1 w2 \<Longrightarrow> writes w w2"
proof -
  assume "writes w w1" "writes w1 w2"
  then obtain n1 n2 where "map_log w1 = map_log w @ n1" "kmaps w1 = last (kmaps w # n1)"
    "map_log w2 = map_log w1 @ n2" "kmaps w2 = last (kmaps w1 # n2)" by (auto simp: writes_def)
  then have "map_log w2 = map_log w @ (n1 @ n2) \<and> kmaps w2 = last (kmaps w # n1 @ n2)" by simp
  with \<open>writes w w1\<close> \<open>writes w1 w2\<close> show ?thesis unfolding writes_def by metis
qed

lemma writes_put_maps [simp]: "writes w (put_maps m w)"
  by (auto simp: writes_def put_maps_def)

lemma writes_bank [simp]: "writes w (w\<lparr>active_bank := b\<rparr>)"
  by (simp add: writes_def)

lemma map_writer_and_then: "map_writer f \<Longrightarrow> map_writer g \<Longrightarrow> map_writer (and_then f g)"
  unfolding map_writer_def and_then_def
  by (simp split: prod.split sum.split) (metis snd_conv writes_trans)

lemma map_writer_set:
  "map_writer (set_policy E i a)" "map_writer (set_rule E i r)" "map_writer (set_config E i c)"
  by (simp_all add: map_writer_def set_policy_def set_rule_def set_config_def split: sum.split)

lemma map_writer_write_rules: "map_writer (write_rules E base i rs)"
proof (induction rs arbitrary: i)
  case Nil
  then show ?case by (simp add: map_writer_def)
next
  case (Cons r rs)
  have "write_rules E base i (r # rs) = and_then (set_rule E (base + i) r) (write_rules E base (i + 1) rs)"
    by (rule ext) simp
  with Cons show ?case by (simp add: map_writer_and_then map_writer_set)
qed

lemma map_writer_write_config: "map_writer (\<lambda>w. write_config E (w\<lparr>active_bank := b\<rparr>))"
  using map_writer_set(3) writes_bank unfolding map_writer_def write_config_def by (metis writes_trans)

lemma map_writer_sync:
  "map_writer (sync_defaults E)" "map_writer (sync_rules E)" "map_writer (sync_all E)"
proof -
  show d: "map_writer (sync_defaults E)"
    using map_writer_and_then [OF map_writer_set(1) map_writer_set(1)] unfolding map_writer_def sync_defaults_def by blast
  show r: "map_writer (sync_rules E)"
    using map_writer_and_then [OF map_writer_write_rules map_writer_write_config]
    unfolding map_writer_def sync_rules_def Let_def by (simp split: sum.split)
  from d r show "map_writer (sync_all E)" by (simp add: sync_all_def map_writer_and_then)
qed

lemma map_writerD:
  assumes "map_writer f"
  shows "ds_on_disk (snd (f w)) = ds_on_disk w" "disk (snd (f w)) = disk w"
    "attached_interfaces (snd (f w)) = attached_interfaces w"
  using assms by (simp_all add: map_writer_def writes_def)

lemmas sync_frame [simp] = map_writer_sync [THEN map_writerD(1)] map_writer_sync [THEN map_writerD(2)]
  map_writer_sync [THEN map_writerD(3)]

lemma and_then_Inr: "and_then f g w = (Inr u, w') \<longleftrightarrow> (\<exists>w1. f w = (Inr (), w1) \<and> g w1 = (Inr u, w'))"
  by (auto simp: and_then_def split: prod.split sum.split)

section \<open>Writing a bank\<close>

text \<open>Map states that differ in rule slots of \<open>S\<close> only.\<close>

definition differ_in :: "u32 set \<Rightarrow> bpf_maps \<Rightarrow> bpf_maps \<Rightarrow> bool" where
  "differ_in S m m' \<longleftrightarrow> CONFIG m' = CONFIG m \<and> DEFAULT_POLICY m' = DEFAULT_POLICY m \<and>
     (\<forall>j. j \<notin> S \<longrightarrow> RULES m' j = RULES m j)"

lemma differ_in_refl [simp]: "differ_in S m m"
  by (simp add: differ_in_def)

lemma set_rule_states:
  assumes "maps_ok E"
  obtains (fail) e where "set_rule E i r w = (Inl e, w)"
    | (ok) "set_rule E i r w = (Inr (), put_maps ((kmaps w)\<lparr>RULES := (RULES (kmaps w))(i \<mapsto> r)\<rparr>) w)"
proof (cases "rules_set E (RULES (kmaps w)) i r")
  case (Inl e)
  with fail show ?thesis by (simp add: set_rule_def)
next
  case (Inr m)
  then have "m = (RULES (kmaps w))(i \<mapsto> r)" using assms by (simp add: maps_ok_def array_law_def)
  with ok Inr show ?thesis by (simp add: set_rule_def)
qed

lemma write_rules_states:
  assumes "maps_ok E"
  shows "\<forall>k < length rs. base + of_nat (i + k) \<in> S \<Longrightarrow>
    \<exists>new. map_log (snd (write_rules E base (of_nat i) rs w)) = map_log w @ new \<and>
      (\<forall>m \<in> set new. differ_in S (kmaps w) m) \<and>
      differ_in S (kmaps w) (kmaps (snd (write_rules E base (of_nat i) rs w))) \<and>
      active_bank (snd (write_rules E base (of_nat i) rs w)) = active_bank w"
proof (induction rs arbitrary: i w)
  case (Cons r rs)
  show ?case
  proof (rule set_rule_states [OF assms, of "base + of_nat i" r w])
    fix e assume "set_rule E (base + of_nat i) r w = (Inl e, w)"
    then show ?thesis by (simp add: and_then_def)
  next
    let ?w1 = "put_maps ((kmaps w)\<lparr>RULES := (RULES (kmaps w))(base + of_nat i \<mapsto> r)\<rparr>) w"
    assume ok: "set_rule E (base + of_nat i) r w = (Inr (), ?w1)"
    have run: "write_rules E base (of_nat i) (r # rs) w = write_rules E base (of_nat (Suc i)) rs ?w1"
      using ok by (simp add: and_then_def add.commute)
    have slot: "base + of_nat i \<in> S" using Cons.prems by force
    then have d1: "differ_in S (kmaps w) (kmaps ?w1)" by (simp add: differ_in_def put_maps_def)
    have tr: "differ_in S (kmaps w) m" if "differ_in S (kmaps ?w1) m" for m
      using that d1 by (auto simp: differ_in_def)
    have "\<forall>k < length rs. base + of_nat (Suc i + k) \<in> S"
      using Cons.prems by (metis Suc_less_eq add_Suc_shift length_Cons)
    from Cons.IH [OF this, of ?w1] obtain new where new:
      "map_log (snd (write_rules E base (of_nat (Suc i)) rs ?w1)) = map_log ?w1 @ new"
      "\<forall>m \<in> set new. differ_in S (kmaps ?w1) m"
      "differ_in S (kmaps ?w1) (kmaps (snd (write_rules E base (of_nat (Suc i)) rs ?w1)))"
      "active_bank (snd (write_rules E base (of_nat (Suc i)) rs ?w1)) = active_bank ?w1" by blast
    have "map_log ?w1 = map_log w @ [kmaps ?w1]" "active_bank ?w1 = active_bank w" by (simp_all add: put_maps_def)
    with new d1 tr show ?thesis
      unfolding run by (intro exI [of _ "kmaps ?w1 # new"]) simp
  qed
qed simp

text \<open>A complete write puts every rule in its slot.\<close>

lemma write_rules_done:
  assumes "maps_ok E"
  shows "write_rules E base (of_nat i) rs w = (Inr u, w') \<Longrightarrow> i + length rs \<le> 256 \<Longrightarrow> k < length rs \<Longrightarrow>
    RULES (kmaps w') (base + of_nat (i + k)) = Some (rs ! k)"
proof (induction rs arbitrary: i k w)
  case (Cons r rs)
  let ?w1 = "put_maps ((kmaps w)\<lparr>RULES := (RULES (kmaps w))(base + of_nat i \<mapsto> r)\<rparr>) w"
  have "set_rule E (base + of_nat i) r w = (Inr (), ?w1)"
    using Cons.prems(1) by (cases rule: set_rule_states [OF assms, of "base + of_nat i" r w]) (simp_all add: and_then_def)
  then have run: "write_rules E base (of_nat (Suc i)) rs ?w1 = (Inr u, w')"
    using Cons.prems(1) by (simp add: and_then_def add.commute)
  show ?case
  proof (cases k)
    case (Suc n)
    then show ?thesis using Cons.IH [OF run, of n] Cons.prems by simp
  next
    case 0
    define S where "S = {base + of_nat (Suc i + n) | n. n < length rs}"
    have "base + of_nat i \<notin> S"
    proof
      assume "base + of_nat i \<in> S"
      then obtain n where n: "n < length rs" "(of_nat i :: u32) = of_nat (Suc i + n)" by (auto simp: S_def)
      from n(2) have "unat (of_nat i :: u32) = unat (of_nat (Suc i + n) :: u32)" by (rule arg_cong)
      with n(1) Cons.prems(2) show False by (simp add: unat_of_nat del: of_nat_Suc of_nat_add)
    qed
    moreover have "differ_in S (kmaps ?w1) (kmaps w')"
      using write_rules_states [OF assms, of rs base "Suc i" S ?w1] run by (auto simp: S_def)
    ultimately show ?thesis using 0 by (simp add: differ_in_def put_maps_def)
  qed
qed simp

section \<open>The flip of the banks\<close>

definition bank_ok :: "u8 \<Rightarrow> bool" where
  "bank_ok b \<longleftrightarrow> b = 0 \<or> b = 1"

text \<open>The daemon and the kernel agree on the bank in use.\<close>

definition bank_consistent :: "daemon_state \<Rightarrow> bool" where
  "bank_consistent w \<longleftrightarrow> bank_ok (active_bank w) \<and>
     (case CONFIG (kmaps w) 0 of None \<Rightarrow> False | Some c \<Rightarrow> g_active_bank c = active_bank w)"

definition bank_slots :: "u8 \<Rightarrow> u32 set" where
  "bank_slots b = {ucast b * RULES_MAX + of_nat k | k. k < 256}"

lemma banks_disjoint:
  assumes "bank_ok b" "j < 256"
  shows "(ucast b AND 1) * RULES_MAX + of_nat j \<notin> bank_slots (1 - b)"
proof
  assume "(ucast b AND 1) * RULES_MAX + of_nat j \<in> bank_slots (1 - b)"
  then obtain k where k: "k < 256"
    and eq: "(ucast b AND 1) * RULES_MAX + of_nat j = (ucast (1 - b) :: u32) * RULES_MAX + of_nat k"
    by (auto simp: bank_slots_def)
  have small: "unat (256 + of_nat n :: u32) = 256 + n" "unat (of_nat n :: u32) = n" if "n < 256" for n
    using that by (simp_all add: unat_plus_exact unat_of_nat)
  from assms(1) consider "b = 0" | "b = 1" by (auto simp: bank_ok_def)
  then show False
  proof cases
    case 1
    with eq have "(of_nat j :: u32) = 256 + of_nat k" by (simp add: moat_consts)
    with small [OF k] small [OF assms(2)] assms(2) show False by (metis add_lessD1 not_add_less1)
  next
    case 2
    with eq have "256 + of_nat j = (of_nat k :: u32)" by (simp add: moat_consts)
    with small [OF k] small [OF assms(2)] k show False by (metis add_lessD1 not_add_less1)
  qed
qed

text \<open>Whatever is written to the other bank, the walk does not see it.\<close>

lemma walk_ignores_other_bank:
  assumes "bank_consistent w" "differ_in (bank_slots (1 - active_bank w)) (kmaps w) m"
  shows "walk_rules m dir ifi p = walk_rules (kmaps w) dir ifi p"
proof (rule walk_rules_cong)
  from assms(1) obtain c where c: "CONFIG (kmaps w) 0 = Some c" "g_active_bank c = active_bank w" "bank_ok (active_bank w)"
    by (auto simp: bank_consistent_def split: option.splits)
  fix base count and j :: nat
  assume "active_window m = (base, count)" "j < 256"
  then have "base = (ucast (active_bank w) AND 1) * RULES_MAX"
    using assms(2) c by (simp add: active_window_def differ_in_def)
  with banks_disjoint [OF c(3) \<open>j < 256\<close>] assms(2)
  show "RULES m (base + of_nat j) = RULES (kmaps w) (base + of_nat j)" by (simp add: differ_in_def)
qed (use assms(2) in \<open>simp_all add: differ_in_def\<close>)

lemma set_config_states:
  assumes "maps_ok E"
  obtains (fail) e where "set_config E i c w = (Inl e, w)"
    | (ok) "set_config E i c w = (Inr (), put_maps ((kmaps w)\<lparr>CONFIG := (CONFIG (kmaps w))(i \<mapsto> c)\<rparr>) w)"
proof (cases "config_set E (CONFIG (kmaps w)) i c")
  case (Inl e)
  with fail show ?thesis by (simp add: set_config_def)
next
  case (Inr m)
  then have "m = (CONFIG (kmaps w))(i \<mapsto> c)" using assms by (simp add: maps_ok_def array_law_def)
  with ok Inr show ?thesis by (simp add: set_config_def)
qed

text \<open>The three ways a synchronisation of the rules can go.\<close>

lemma sync_rules_cases:
  assumes "maps_ok E"
  obtains
    (untranslatable) e where "translate_rules (net E) (d_rules (ds_on_disk w)) = Inl e" "sync_rules E w = (Inl e, w)"
  | (incomplete) e w1 new where "sync_rules E w = (Inl e, w1)" "map_log w1 = map_log w @ new"
      "\<forall>m \<in> set new. differ_in (bank_slots (1 - active_bank w)) (kmaps w) m"
      "differ_in (bank_slots (1 - active_bank w)) (kmaps w) (kmaps w1)"
  | (flipped) rs w1 new where "translate_rules (net E) (d_rules (ds_on_disk w)) = Inr rs"
      "write_rules E (ucast (1 - active_bank w) * RULES_MAX) 0 (take 256 rs) w = (Inr (), w1)"
      "map_log w1 = map_log w @ new" "\<forall>m \<in> set new. differ_in (bank_slots (1 - active_bank w)) (kmaps w) m"
      "differ_in (bank_slots (1 - active_bank w)) (kmaps w) (kmaps w1)"
      "sync_rules E w = (Inr (), put_maps ((kmaps w1)\<lparr>CONFIG := (CONFIG (kmaps w1))(0 \<mapsto>
         config_of (ds_on_disk w) (1 - active_bank w))\<rparr>) (w1\<lparr>active_bank := 1 - active_bank w\<rparr>))"
proof (cases "translate_rules (net E) (d_rules (ds_on_disk w))")
  case (Inl e)
  with untranslatable show ?thesis by (simp add: sync_rules_def)
next
  case (Inr rs)
  let ?base = "ucast (1 - active_bank w) * RULES_MAX" and ?S = "bank_slots (1 - active_bank w)"
  obtain r w1 where wr: "write_rules E ?base 0 (take 256 rs) w = (r, w1)" by fastforce
  have sync: "sync_rules E w = (case r of Inl e \<Rightarrow> (Inl e, w1)
      | Inr _ \<Rightarrow> set_config E 0 (config_of (ds_on_disk w1) (1 - active_bank w)) (w1\<lparr>active_bank := 1 - active_bank w\<rparr>))"
    by (cases r) (simp_all add: sync_rules_def Inr and_then_def wr RULES_MAX_def write_config_def Let_def
        wr [unfolded RULES_MAX_def, simplified])
  have od: "ds_on_disk w1 = ds_on_disk w"
    using map_writerD(1) [OF map_writer_write_rules, of E ?base 0 "take 256 rs" w] by (simp add: wr)
  have "\<forall>k < length (take 256 rs). ?base + of_nat (0 + k) \<in> ?S" by (auto simp: bank_slots_def)
  from write_rules_states [OF assms this, of w] obtain new where new: "map_log w1 = map_log w @ new"
    "\<forall>m \<in> set new. differ_in ?S (kmaps w) m" "differ_in ?S (kmaps w) (kmaps w1)" by (auto simp: wr)
  show ?thesis
  proof (cases r)
    case (Inl e)
    with sync new show ?thesis by (intro incomplete [of e w1 new]) simp_all
  next
    case Ok: (Inr u)
    let ?w2 = "w1\<lparr>active_bank := 1 - active_bank w\<rparr>" and ?c = "config_of (ds_on_disk w) (1 - active_bank w)"
    show ?thesis
    proof (rule set_config_states [OF assms, of 0 ?c ?w2])
      fix e assume "set_config E 0 ?c ?w2 = (Inl e, ?w2)"
      with sync new od Ok show ?thesis by (intro incomplete [of e ?w2 new]) simp_all
    next
      assume "set_config E 0 ?c ?w2 = (Inr (), put_maps ((kmaps ?w2)\<lparr>CONFIG := (CONFIG (kmaps ?w2))(0 \<mapsto> ?c)\<rparr>) ?w2)"
      with sync new od Ok Inr wr show ?thesis by (intro flipped [of rs w1 new]) simp_all
    qed
  qed
qed

lemma sync_rules_atomic:
  assumes "maps_ok E" "bank_consistent w" "sync_rules E w = (res, w')" "map_log w' = map_log w @ new"
  shows "(\<forall>m \<in> set new. (\<forall>dir ifi p. walk_rules m dir ifi p = walk_rules (kmaps w) dir ifi p) \<or>
            m = kmaps w' \<and> res = Inr ()) \<and>
         (res = Inr () \<or> (\<forall>dir ifi p. walk_rules (kmaps w') dir ifi p = walk_rules (kmaps w) dir ifi p))"
proof (rule sync_rules_cases [OF assms(1), of w])
  fix e w1 n
  assume run: "sync_rules E w = (Inl e, w1)" "map_log w1 = map_log w @ n"
    and d: "\<forall>m \<in> set n. differ_in (bank_slots (1 - active_bank w)) (kmaps w) m"
    "differ_in (bank_slots (1 - active_bank w)) (kmaps w) (kmaps w1)"
  from run assms(3,4) have "new = n" "w' = w1" by simp_all
  with d show ?thesis using walk_ignores_other_bank [OF assms(2)] by blast
next
  fix rs and w1 :: daemon_state and n
  let ?m = "(kmaps w1)\<lparr>CONFIG := (CONFIG (kmaps w1))(0 \<mapsto> config_of (ds_on_disk w) (1 - active_bank w))\<rparr>"
  assume run: "map_log w1 = map_log w @ n" "sync_rules E w = (Inr (), put_maps ?m (w1\<lparr>active_bank := 1 - active_bank w\<rparr>))"
    and d: "\<forall>m \<in> set n. differ_in (bank_slots (1 - active_bank w)) (kmaps w) m"
  from run assms(3,4) have eq: "new = n @ [kmaps w']" "res = Inr ()" by (auto simp: put_maps_def)
  from d have "\<forall>m \<in> set n. \<forall>dir ifi p. walk_rules m dir ifi p = walk_rules (kmaps w) dir ifi p"
    using walk_ignores_other_bank [OF assms(2)] by blast
  with eq show ?thesis by (metis Un_iff set_append set_ConsD empty_iff list.set(1))
qed (use assms(3,4) in simp)

text \<open>After a successful synchronisation the active bank holds the translated rules.\<close>

lemma active_rules_bank:
  assumes "CONFIG m 0 = Some c" "g_active_bank c = b" "bank_ok b" "unat (g_rule_count c) = length rs" "length rs \<le> 256"
    and "\<And>k. k < length rs \<Longrightarrow> RULES m (ucast b * RULES_MAX + of_nat k) = Some (rs ! k)"
  shows "active_rules m = rs"
proof -
  have b: "(ucast b AND 1 :: u32) = ucast b" using assms(3) by (auto simp: bank_ok_def)
  have cnt: "unat (ucast (g_rule_count c) :: u32) = length rs"
    using assms(4,5) by (simp add: unsigned_ucast_eq take_bit_nat_eq_self)
  have "map (\<lambda>i. RULES m (ucast b * RULES_MAX + of_nat i)) [0..<length rs] = map Some rs"
    using assms(6) by (intro nth_equalityI) simp_all
  moreover have "map the (takeWhile (\<lambda>r. r \<noteq> None) (map Some rs)) = rs" by (induction rs) simp_all
  moreover have "min (unat RULES_MAX) (length rs) = length rs" using assms(5) by (simp add: RULES_MAX_def)
  ultimately show ?thesis by (simp add: active_rules_def active_window_def assms(1,2) b cnt)
qed

lemma translate_rules_length: "translate_rules S us = Inr rs \<Longrightarrow> length rs = length us"
  by (induction us arbitrary: rs) (auto split: sum.splits)

lemma sync_rules_done:
  assumes "maps_ok E" "bank_ok (active_bank w)" "sync_rules E w = (Inr u, w')"
    and "translate_rules (net E) (d_rules (ds_on_disk w)) = Inr rs"
  shows "active_rules (kmaps w') = take 256 rs" "CONFIG (kmaps w') 0 = Some (config_of (ds_on_disk w) (active_bank w'))"
    "DEFAULT_POLICY (kmaps w') = DEFAULT_POLICY (kmaps w)" "bank_consistent w'"
proof -
  obtain w1 where wr:
    "write_rules E (ucast (1 - active_bank w) * RULES_MAX) 0 (take 256 rs) w = (Inr (), w1)" and
    d: "differ_in (bank_slots (1 - active_bank w)) (kmaps w) (kmaps w1)" and
    w': "w' = put_maps ((kmaps w1)\<lparr>CONFIG := (CONFIG (kmaps w1))(0 \<mapsto>
         config_of (ds_on_disk w) (1 - active_bank w))\<rparr>) (w1\<lparr>active_bank := 1 - active_bank w\<rparr>)"
  proof (rule sync_rules_cases [OF assms(1), of w])
    fix rs' w1 n
    assume "translate_rules (net E) (d_rules (ds_on_disk w)) = Inr rs'"
      "write_rules E (ucast (1 - active_bank w) * RULES_MAX) 0 (take 256 rs') w = (Inr (), w1)"
      "differ_in (bank_slots (1 - active_bank w)) (kmaps w) (kmaps w1)"
      "sync_rules E w = (Inr (), put_maps ((kmaps w1)\<lparr>CONFIG := (CONFIG (kmaps w1))(0 \<mapsto>
         config_of (ds_on_disk w) (1 - active_bank w))\<rparr>) (w1\<lparr>active_bank := 1 - active_bank w\<rparr>))"
    with assms(3,4) show thesis by (intro that [of w1]) simp_all
  qed (use assms(3,4) in simp_all)
  show c: "CONFIG (kmaps w') 0 = Some (config_of (ds_on_disk w) (active_bank w'))" by (simp add: w' put_maps_def)
  show "DEFAULT_POLICY (kmaps w') = DEFAULT_POLICY (kmaps w)" using d by (simp add: w' put_maps_def differ_in_def)
  have b: "active_bank w' = 1 - active_bank w" by (simp add: w' put_maps_def)
  with assms(2) have ok: "bank_ok (active_bank w')" by (auto simp: bank_ok_def)
  with c show "bank_consistent w'" by (simp add: bank_consistent_def config_of_def)
  show "active_rules (kmaps w') = take 256 rs"
  proof (rule active_rules_bank [OF c _ ok])
    have len: "length rs = length (d_rules (ds_on_disk w))" using translate_rules_length [OF assms(4)] .
    show "unat (g_rule_count (config_of (ds_on_disk w) (active_bank w'))) = length (take 256 rs)"
      by (simp add: config_of_def RULES_MAX_def len unat_of_nat min.commute)
    show "RULES (kmaps w') (ucast (active_bank w') * RULES_MAX + of_nat k) = Some (take 256 rs ! k)"
      if "k < length (take 256 rs)" for k
      using write_rules_done [OF assms(1), of _ 0 "take 256 rs" w "()" w1 k] wr that by (simp add: b w' put_maps_def)
  qed (simp_all add: config_of_def)
qed

lemma set_policy_done:
  assumes "maps_ok E" "set_policy E i a w = (Inr u, w')"
  shows "w' = put_maps ((kmaps w)\<lparr>DEFAULT_POLICY := (DEFAULT_POLICY (kmaps w))(i \<mapsto> a)\<rparr>) w"
  using assms by (auto simp: set_policy_def maps_ok_def array_law_def split: sum.splits)

lemma set_policy_bank: "active_bank (snd (set_policy E i a w)) = active_bank w"
  "CONFIG (kmaps (snd (set_policy E i a w))) = CONFIG (kmaps w)"
  by (simp_all add: set_policy_def put_maps_def split: sum.split)

lemma sync_defaults_bank [simp]: "active_bank (snd (sync_defaults E w)) = active_bank w"
  "CONFIG (kmaps (snd (sync_defaults E w))) = CONFIG (kmaps w)"
  using set_policy_bank by (auto simp: sync_defaults_def and_then_def split: prod.split sum.split) (metis snd_conv)+

lemma sync_defaults_done:
  assumes "maps_ok E" "sync_defaults E w = (Inr u, w')"
  shows "default_verdict (kmaps w') DIR_IN = action_byte (d_default_in (ds_on_disk w))"
    "default_verdict (kmaps w') DIR_OUT = action_byte (d_default_out (ds_on_disk w))"
proof -
  from assms(2) obtain w1 where
    w1: "set_policy E POLICY_IN (action_byte (d_default_in (ds_on_disk w))) w = (Inr (), w1)" and
    w2: "set_policy E POLICY_OUT (action_byte (d_default_out (ds_on_disk w))) w1 = (Inr u, w')"
    by (auto simp: sync_defaults_def and_then_Inr)
  show "default_verdict (kmaps w') DIR_IN = action_byte (d_default_in (ds_on_disk w))"
    "default_verdict (kmaps w') DIR_OUT = action_byte (d_default_out (ds_on_disk w))"
    unfolding set_policy_done [OF assms(1) w2] set_policy_done [OF assms(1) w1]
    by (simp_all add: default_verdict_def put_maps_def moat_consts)
qed

section \<open>A rule set in force\<close>

text \<open>The rules of a rule set, each with the index its interface resolves to, and the policy they
  stand for.\<close>

definition resolved :: "sysfs \<Rightarrow> on_disk \<Rightarrow> (user_rule \<times> u32) list" where
  "resolved S od = map (\<lambda>u. (u, resolve_iface S (u_iface u))) (d_rules od)"

definition default_action :: "on_disk \<Rightarrow> direction \<Rightarrow> action" where
  "default_action od d = (case d of In \<Rightarrow> d_default_in od | Out \<Rightarrow> d_default_out od)"

definition policy :: "sysfs \<Rightarrow> on_disk \<Rightarrow> direction \<Rightarrow> u32 \<Rightarrow> parsed \<Rightarrow> action" where
  "policy S od d ifi p = user_decide (resolved S od) (default_action od d) (direction_byte d, ifi, p)"

text \<open>The maps implement a rule set: on every well-formed packet the walk gives the verdict of the
  policy, and the defaults and the data path's switches are those of the rule set.\<close>

definition in_force :: "sysfs \<Rightarrow> on_disk \<Rightarrow> bpf_maps \<Rightarrow> bool" where
  "in_force S od m \<longleftrightarrow>
     (\<forall>d ifi p. wf_parsed p \<longrightarrow> fst (walk_rules m (direction_byte d) ifi p) = action_byte (policy S od d ifi p)) \<and>
     (\<forall>d. default_verdict m (direction_byte d) = action_byte (default_action od d)) \<and>
     logging_enabled m = d_logging_enabled od \<and> conntrack_enabled m = needs_conntrack od"

lemma translate_rules_refines:
  "translate_rules S us = Inr rs \<Longrightarrow> list_all2 wire_refines (map (\<lambda>u. (u, resolve_iface S (u_iface u))) us) rs"
  by (induction us arbitrary: rs) (auto simp: wire_refines_def split: sum.splits)

lemma translate_rules_actions: "translate_rules S us = Inr rs \<Longrightarrow> \<forall>r \<in> set rs. r_action r \<noteq> - 1"
proof (induction us arbitrary: rs)
  case (Cons u us)
  then obtain r rs' where "build_wire_rule u (resolve_iface S (u_iface u)) = Inr r" "translate_rules S us = Inr rs'" "rs = r # rs'"
    by (auto split: sum.splits)
  with Cons.IH build_wire_rule_wf(3) action_byte_range [of "u_action u"] show ?case by (auto simp: moat_consts)
qed simp

lemma sync_rules_in_force:
  assumes "maps_ok E" "bank_ok (active_bank w)" "length (d_rules (ds_on_disk w)) \<le> 256" "sync_rules E w = (Inr u, w')"
    and "\<And>d. default_verdict (kmaps w) (direction_byte d) = action_byte (default_action (ds_on_disk w) d)"
  shows "in_force (net E) (ds_on_disk w) (kmaps w')" "bank_consistent w'"
proof -
  let ?od = "ds_on_disk w"
  obtain rs where rs: "translate_rules (net E) (d_rules ?od) = Inr rs"
    using assms(4) by (auto simp: sync_rules_def split: sum.splits)
  note fin = sync_rules_done [OF assms(1,2,4) rs]
  show "bank_consistent w'" by (rule fin(4))
  have act: "active_rules (kmaps w') = rs"
    using fin(1) translate_rules_length [OF rs] assms(3) by simp
  have defaults: "default_verdict (kmaps w') (direction_byte d) = action_byte (default_action ?od d)" for d
    using assms(5) [of d] fin(3) by (simp add: default_verdict_def)
  have "fst (walk_rules (kmaps w') (direction_byte d) ifi p) = action_byte (policy (net E) ?od d ifi p)"
    if "wf_parsed p" for d ifi p
  proof -
    have "fst (walk_rules (kmaps w') (direction_byte d) ifi p) =
        rules_decide rs (action_byte (default_action ?od d)) (direction_byte d, ifi, p)"
      using translate_rules_actions [OF rs] by (simp add: walk_rules_decides act defaults)
    also have "\<dots> = action_byte (policy (net E) ?od d ifi p)"
      unfolding policy_def resolved_def
      using that by (intro wire_user.decide_refines translate_rules_refines [OF rs]) (simp add: good_flow_def wf_parsed_def)
    finally show ?thesis .
  qed
  with fin(2) defaults show "in_force (net E) ?od (kmaps w')"
    by (simp add: in_force_def logging_enabled_def conntrack_enabled_def config_of_def)
qed

lemma sync_all_in_force:
  assumes "maps_ok E" "bank_ok (active_bank w)" "length (d_rules (ds_on_disk w)) \<le> 256" "sync_all E w = (Inr u, w')"
  shows "in_force (net E) (ds_on_disk w) (kmaps w')" "bank_consistent w'"
proof -
  from assms(4) obtain w1 where w1: "sync_defaults E w = (Inr (), w1)" and w2: "sync_rules E w1 = (Inr u, w')"
    by (auto simp: sync_all_def and_then_Inr)
  have s1: "ds_on_disk w1 = ds_on_disk w" "active_bank w1 = active_bank w"
    using sync_frame(1) [of E w] sync_defaults_bank(1) [of E w] by (simp_all add: w1)
  have "default_verdict (kmaps w1) (direction_byte d) = action_byte (default_action (ds_on_disk w) d)" for d
    using sync_defaults_done [OF assms(1) w1] by (cases d) (simp_all add: default_action_def)
  with sync_rules_in_force [OF assms(1) _ _ w2] assms(2,3)
  show "in_force (net E) (ds_on_disk w) (kmaps w')" "bank_consistent w'" by (simp_all add: s1)
qed

text \<open>Being in force depends on rules, policies and configuration only, and on the resolution of the
  interfaces the rules name.\<close>

lemma in_force_cong:
  assumes "RULES m' = RULES m" "CONFIG m' = CONFIG m" "DEFAULT_POLICY m' = DEFAULT_POLICY m"
  shows "in_force S od m' = in_force S od m"
proof -
  have "walk_rules m' d i p = walk_rules m d i p" for d i p by (rule walk_rules_cong) (simp_all add: assms)
  then show ?thesis
    by (simp add: in_force_def default_verdict_def logging_enabled_def conntrack_enabled_def assms)
qed

lemma in_force_resolved: "resolved S od = resolved S' od \<Longrightarrow> in_force S od m = in_force S' od m"
  by (simp add: in_force_def policy_def)

text \<open>Nothing but an untranslatable rule or a failing system call stops a synchronisation.\<close>

definition maps_total :: "denv \<Rightarrow> bool" where
  "maps_total E \<longleftrightarrow> array_total (rules_set E) RULES_SLOTS \<and> array_total (policy_set E) 3 \<and> array_total (config_set E) 1"

lemma write_rules_succeeds:
  assumes "array_total (rules_set E) RULES_SLOTS" "base = 0 \<or> base = 256"
  shows "i + length rs \<le> 256 \<Longrightarrow> \<exists>w'. write_rules E base (of_nat i) rs w = (Inr (), w')"
proof (induction rs arbitrary: i w)
  case (Cons r rs)
  have "unat (of_nat i :: u32) = i" using Cons.prems by (simp add: unat_of_nat)
  then have "unat (base + of_nat i) = unat base + i"
    using assms(2) Cons.prems by (subst unat_plus_exact) auto
  then have "base + of_nat i < RULES_SLOTS"
    using assms(2) Cons.prems by (auto simp: word_less_nat_alt moat_consts)
  then obtain m where "rules_set E (RULES (kmaps w)) (base + of_nat i) r = Inr m"
    using assms(1) unfolding array_total_def by blast
  then have "write_rules E base (of_nat i) (r # rs) w =
      write_rules E base (of_nat (Suc i)) rs (put_maps ((kmaps w)\<lparr>RULES := m\<rparr>) w)"
    by (simp add: and_then_def set_rule_def add.commute)
  with Cons.IH [of "Suc i"] Cons.prems show ?case by simp
qed simp

lemma set_policy_succeeds: "array_total (policy_set E) 3 \<Longrightarrow> i < 3 \<Longrightarrow> \<exists>w'. set_policy E i a w = (Inr (), w')"
  by (auto simp: array_total_def set_policy_def split: sum.split) (metis Inl_Inr_False)

lemma set_config_succeeds: "array_total (config_set E) 1 \<Longrightarrow> \<exists>w'. set_config E 0 c w = (Inr (), w')"
  by (auto simp: array_total_def set_config_def split: sum.split) (metis Inl_Inr_False word_gt_0 zero_neq_one)

lemma sync_rules_succeeds:
  assumes "maps_total E" "bank_ok (active_bank w)" "translate_rules (net E) (d_rules (ds_on_disk w)) = Inr rs"
  shows "\<exists>w'. sync_rules E w = (Inr (), w')"
proof -
  let ?b = "(ucast (1 - active_bank w) :: u32) * RULES_MAX"
  have "?b = 0 \<or> ?b = 256" using assms(2) by (auto simp: bank_ok_def moat_consts)
  then obtain w2 where w2: "write_rules E ?b 0 (take 256 rs) w = (Inr (), w2)"
    using write_rules_succeeds [of E ?b 0 "take 256 rs" w] assms(1) by (auto simp: maps_total_def)
  obtain w3 where "write_config E (w2\<lparr>active_bank := 1 - active_bank w\<rparr>) = (Inr (), w3)"
    using set_config_succeeds assms(1) unfolding write_config_def maps_total_def by blast
  with w2 show ?thesis
    by (simp add: sync_rules_def assms(3) and_then_def Let_def RULES_MAX_def)
qed

lemma sync_all_succeeds:
  assumes "maps_total E" "bank_ok (active_bank w)" "translate_rules (net E) (d_rules (ds_on_disk w)) = Inr rs"
  shows "\<exists>w'. sync_all E w = (Inr (), w')"
proof -
  obtain w1 where w1: "sync_defaults E w = (Inr (), w1)"
    using assms(1) set_policy_succeeds [of E POLICY_IN] set_policy_succeeds [of E POLICY_OUT]
    unfolding sync_defaults_def and_then_Inr maps_total_def by (simp add: moat_consts) metis
  have "ds_on_disk w1 = ds_on_disk w" "active_bank w1 = active_bank w"
    using sync_frame(1) [of E w] sync_defaults_bank(1) [of E w] by (simp_all add: w1)
  with assms sync_rules_succeeds [of E w1 rs] w1 show ?thesis by (auto simp: sync_all_def and_then_def)
qed

section \<open>The abstract daemon\<close>

text \<open>What each request does to the rule set.\<close>

fun spec_step :: "request \<Rightarrow> on_disk \<Rightarrow> on_disk" where
  "spec_step (Req_AddRule r) od =
     (if length (d_rules od) < 256 \<and> (case u_iface r of None \<Rightarrow> True | Some i \<Rightarrow> valid_iface_name i)
      then od\<lparr>d_rules := d_rules od @ [r]\<rparr> else od)"
| "spec_step (Req_DeleteRule i) od =
     (if 0 < i \<and> unat i \<le> length (d_rules od) then od\<lparr>d_rules := remove_nth (unat i - 1) (d_rules od)\<rparr> else od)"
| "spec_step (Req_SetDefault d a) od = (case d of In \<Rightarrow> od\<lparr>d_default_in := a\<rparr> | Out \<Rightarrow> od\<lparr>d_default_out := a\<rparr>)"
| "spec_step (Req_SetLogging b) od = od\<lparr>d_logging_enabled := b\<rparr>"
| "spec_step Req_Reset od = on_disk_default"
| "spec_step _ od = od"

definition wf_on_disk :: "on_disk \<Rightarrow> bool" where
  "wf_on_disk od \<longleftrightarrow> length (d_rules od) \<le> 256 \<and>
     list_all (\<lambda>r. case u_iface r of None \<Rightarrow> True | Some i \<Rightarrow> valid_iface_name i) (d_rules od)"

lemma spec_step_wf: "wf_on_disk od \<Longrightarrow> wf_on_disk (spec_step req od)"
  by (cases req) (auto simp: wf_on_disk_def on_disk_default_def remove_nth_def list_all_iff
      dest: in_set_takeD in_set_dropD split: direction.split option.splits)

definition daemon_inv :: "daemon_state \<Rightarrow> bool" where
  "daemon_inv w \<longleftrightarrow> wf_on_disk (ds_on_disk w) \<and> bank_ok (active_bank w)"

lemma sync_rules_bank: "bank_ok (active_bank w) \<Longrightarrow> bank_ok (active_bank (snd (sync_rules E w)))"
proof -
  have keep: "active_bank (snd (write_rules E b i rs w)) = active_bank w" for b i rs w
    by (induction rs arbitrary: i w) (simp_all add: and_then_def set_rule_def put_maps_def split: sum.split)
  have cfg: "active_bank (snd (write_config E w)) = active_bank w" for w
    by (simp add: write_config_def set_config_def put_maps_def split: sum.split)
  assume "bank_ok (active_bank w)"
  then show ?thesis
    using keep cfg
    by (auto simp: sync_rules_def and_then_def Let_def bank_ok_def split: sum.split prod.split) (metis snd_conv)+
qed

lemma persist_and_sync_frame:
  "ds_on_disk (snd (persist_and_sync E w)) = ds_on_disk w"
  "bank_ok (active_bank w) \<Longrightarrow> bank_ok (active_bank (snd (persist_and_sync E w)))"
proof -
  obtain r st where sv: "save (io E) (disk w) RULES_FILE (ds_on_disk w) = (r, st)" by fastforce
  let ?w1 = "w\<lparr>disk := last st\<rparr>"
  have run: "persist_and_sync E w = (case r of Inl e \<Rightarrow> (Inl e, ?w1) | Inr _ \<Rightarrow> sync_all E ?w1)"
    by (simp add: persist_and_sync_def and_then_def save_rules_def sv split: sum.split)
  show "ds_on_disk (snd (persist_and_sync E w)) = ds_on_disk w"
    by (simp add: run split: sum.split)
  assume ok: "bank_ok (active_bank w)"
  obtain r2 w2 where w2: "sync_defaults E ?w1 = (r2, w2)" by fastforce
  then have "bank_ok (active_bank w2)" using ok sync_defaults_bank(1) [of E ?w1] by simp
  then have "bank_ok (active_bank (snd (sync_all E ?w1)))"
    using sync_rules_bank [of w2 E] by (cases r2) (simp_all add: sync_all_def and_then_def w2)
  with ok show "bank_ok (active_bank (snd (persist_and_sync E w)))"
    by (simp add: run split: sum.split)
qed

lemma to_response_simps [simp]:
  "to_response (Inr u, w) = (Resp_Ok, w)" "to_response (Inl e, w) = (Resp_Err e, w)"
  "snd (to_response x) = snd x"
  by (simp_all add: to_response_def split: prod.split sum.split)

lemma to_response_cases: "to_response x = (Resp_Ok, snd x) \<or> (\<exists>e. to_response x = (Resp_Err e, snd x))"
  by (cases x; cases "fst x") (auto simp: to_response_def)

lemma unat_pred: "(i :: u32) \<noteq> 0 \<Longrightarrow> unat (i - 1) = unat i - 1"
  by (subst unat_minus_exact) (simp_all add: word_le_nat_alt unat_gt_0 Suc_leI)

lemma reset_is_default:
  "(od :: on_disk)\<lparr>d_rules := [], d_default_in := Allow, d_default_out := Allow, d_logging_enabled := False\<rparr> = on_disk_default"
  by (cases od) (simp add: on_disk_default_def default_in_default_def default_out_default_def)

text \<open>A request is refused without any effect, or it changes the rule set as specified and then
  persists and synchronises.\<close>

fun accepts :: "request \<Rightarrow> on_disk \<Rightarrow> bool" where
  "accepts (Req_AddRule r) od \<longleftrightarrow>
     length (d_rules od) < 256 \<and> (case u_iface r of None \<Rightarrow> True | Some i \<Rightarrow> valid_iface_name i)"
| "accepts (Req_DeleteRule i) od \<longleftrightarrow> 0 < i \<and> unat i \<le> length (d_rules od)"
| "accepts (Req_SetDefault d a) od = True"
| "accepts (Req_SetLogging b) od = True"
| "accepts Req_Reset od = True"
| "accepts _ od = False"

lemma delete_index:
  assumes "0 < (i :: u32)" "unat i \<le> n"
  shows "i \<noteq> 0" "unat (i - 1) = unat i - 1" "unat i - 1 < n"
proof -
  show nz: "i \<noteq> 0" using assms(1) by auto
  show "unat (i - 1) = unat i - 1" by (rule unat_pred [OF nz])
  show "unat i - 1 < n" using assms by (simp add: word_less_nat_alt)
qed

lemma dispatch_accepted:
  assumes "accepts req (ds_on_disk w)"
  shows "dispatch E req w = to_response (persist_and_sync E (update_on_disk (spec_step req) w))"
proof (cases req)
  case (Req_AddRule r)
  with assms show ?thesis
    by (simp add: add_rule_def update_on_disk_def validate_iface_name_def RULES_MAX_def split: option.splits)
next
  case (Req_DeleteRule i)
  with assms have "0 < i" "unat i \<le> length (d_rules (ds_on_disk w))" by simp_all
  with delete_index [OF this] Req_DeleteRule show ?thesis
    by (simp add: delete_rule_def update_on_disk_def Let_def)
next
  case (Req_SetDefault d a)
  then show ?thesis by (cases d) (simp_all add: set_default_def update_on_disk_def)
qed (use assms in \<open>simp_all add: set_logging_def reset_def update_on_disk_def reset_is_default\<close>)

lemma dispatch_not_accepted:
  assumes "\<not> accepts req (ds_on_disk w)"
  shows "snd (dispatch E req w) = w" "spec_step req (ds_on_disk w) = ds_on_disk w" "fst (dispatch E req w) \<noteq> Resp_Ok"
proof -
  have pred: "length xs \<le> unat (n - 1)" if "n \<noteq> 0" "\<not> unat n \<le> length xs" for n :: u32 and xs :: "user_rule list"
    using that unat_pred [of n] by simp
  have "snd (dispatch E req w) = w \<and> fst (dispatch E req w) \<noteq> Resp_Ok"
  proof (cases req)
    case (Req_AddRule r)
    with assms show ?thesis
      by (auto simp: add_rule_def fails_def validate_iface_name_def RULES_MAX_def split: option.splits)
  next
    case (Req_DeleteRule i)
    with assms show ?thesis by (auto simp: delete_rule_def fails_def Let_def word_gt_0 dest: pred)
  qed (use assms in simp_all)
  then show "snd (dispatch E req w) = w" "fst (dispatch E req w) \<noteq> Resp_Ok" by simp_all
  show "spec_step req (ds_on_disk w) = ds_on_disk w" using assms by (cases req) auto
qed

text \<open>Every run of requests, each in its own environment, keeps the invariant and refines the
  abstract daemon.\<close>

definition serve :: "denv \<times> request \<Rightarrow> daemon_state \<Rightarrow> daemon_state" where
  "serve er w = snd (dispatch (fst er) (snd er) w)"

lemma serve_on_disk: "ds_on_disk (serve er w) = spec_step (snd er) (ds_on_disk w)"
  by (cases "accepts (snd er) (ds_on_disk w)")
    (simp_all add: serve_def dispatch_accepted dispatch_not_accepted persist_and_sync_frame update_on_disk_def)

lemma serve_bank: "bank_ok (active_bank w) \<Longrightarrow> bank_ok (active_bank (serve er w))"
  by (cases "accepts (snd er) (ds_on_disk w)")
    (simp_all add: serve_def dispatch_accepted dispatch_not_accepted persist_and_sync_frame(2) update_on_disk_def)

interpretation daemon: simulation serve "\<lambda>_. True" daemon_inv ds_on_disk "spec_step \<circ> snd"
  by unfold_locales (simp_all add: daemon_inv_def serve_on_disk spec_step_wf serve_bank)

lemma dispatch_ok:
  assumes "dispatch E req w = (Resp_Ok, w')"
  shows "persist_and_sync E (update_on_disk (spec_step req) w) = (Inr (), w')"
proof (cases "accepts req (ds_on_disk w)")
  case False
  with assms dispatch_not_accepted(3) [OF False, of E] show ?thesis by simp
next
  case True
  then show ?thesis using assms dispatch_accepted [OF True, of E]
    by (cases "persist_and_sync E (update_on_disk (spec_step req) w)") (auto simp: to_response_def split: sum.splits)
qed

lemma persist_and_sync_done:
  assumes "persist_and_sync E w = (Inr u, w')"
  obtains files where "fst (save (io E) (disk w) RULES_FILE (ds_on_disk w)) = Inr ()"
    "files = last (snd (save (io E) (disk w) RULES_FILE (ds_on_disk w)))" "sync_all E (w\<lparr>disk := files\<rparr>) = (Inr u, w')"
  using assms by (auto simp: persist_and_sync_def and_then_Inr save_rules_def split: prod.splits)

lemma sync_all_translates: "sync_all E w = (Inr u, w') \<Longrightarrow> is_ok (translate_rules (net E) (d_rules (ds_on_disk w)))"
proof -
  assume "sync_all E w = (Inr u, w')"
  then obtain w1 where "sync_defaults E w = (Inr (), w1)" "sync_rules E w1 = (Inr u, w')" by (auto simp: sync_all_def and_then_Inr)
  moreover from this(1) have "ds_on_disk w1 = ds_on_disk w" using sync_frame(1) [of E w] by simp
  ultimately show ?thesis by (auto simp: sync_rules_def is_ok_iff split: sum.splits)
qed

lemma dispatch_ok_effect:
  assumes "maps_ok E" and "daemon_inv w" and "dispatch E req w = (Resp_Ok, w')"
  shows "ds_on_disk w' = spec_step req (ds_on_disk w)" and "in_force (net E) (ds_on_disk w') (kmaps w')"
    and "bank_consistent w'" and "is_ok (translate_rules (net E) (d_rules (ds_on_disk w')))"
    and "toml_round_trip (io E) \<Longrightarrow> io_read (io E) \<Longrightarrow> load (io E) (disk w') RULES_FILE = Inr (ds_on_disk w')"
proof -
  let ?w = "update_on_disk (spec_step req) w"
  obtain files where sv: "fst (save (io E) (disk ?w) RULES_FILE (ds_on_disk ?w)) = Inr ()"
    and files: "files = last (snd (save (io E) (disk ?w) RULES_FILE (ds_on_disk ?w)))"
    and sy: "sync_all E (?w\<lparr>disk := files\<rparr>) = (Inr (), w')"
    by (rule persist_and_sync_done [OF dispatch_ok [OF assms(3)]])
  have same: "ds_on_disk w' = ds_on_disk ?w" "disk w' = files"
    using sync_frame(3,6) [of E "?w\<lparr>disk := files\<rparr>"] by (simp_all add: sy)
  then show "ds_on_disk w' = spec_step req (ds_on_disk w)" by (simp add: update_on_disk_def)
  show "in_force (net E) (ds_on_disk w') (kmaps w')" "bank_consistent w'"
    using sync_all_in_force [OF assms(1) _ _ sy] assms(2) spec_step_wf [of "ds_on_disk w" req]
    by (simp_all add: same daemon_inv_def update_on_disk_def wf_on_disk_def)
  show "load (io E) (disk w') RULES_FILE = Inr (ds_on_disk w')" if "toml_round_trip (io E)" "io_read (io E)"
    using save_result(1) [OF sv] toml_round_tripD [OF that(1)] that(2) by (fastforce simp: load_def files same)
  show "is_ok (translate_rules (net E) (d_rules (ds_on_disk w')))"
    using sync_all_translates [OF sy] by (simp add: same)
qed

lemma dispatch_succeeds:
  assumes "maps_total E" and "daemon_inv w" and "accepts req (ds_on_disk w)"
    and "fst (save (io E) (disk w) RULES_FILE (spec_step req (ds_on_disk w))) = Inr ()"
    and "is_ok (translate_rules (net E) (d_rules (spec_step req (ds_on_disk w))))"
  shows "\<exists>w'. dispatch E req w = (Resp_Ok, w')"
proof -
  let ?w = "update_on_disk (spec_step req) w"
  obtain st where sv: "save (io E) (disk ?w) RULES_FILE (ds_on_disk ?w) = (Inr (), st)"
    using assms(4) by (cases "save (io E) (disk w) RULES_FILE (spec_step req (ds_on_disk w))") (simp add: update_on_disk_def)
  from assms(5) obtain rs where "translate_rules (net E) (d_rules (ds_on_disk ?w)) = Inr rs"
    by (auto simp: is_ok_iff update_on_disk_def)
  with assms(1,2) obtain w' where "sync_all E (?w\<lparr>disk := last st\<rparr>) = (Inr (), w')"
    using sync_all_succeeds [of E "?w\<lparr>disk := last st\<rparr>" rs] by (auto simp: daemon_inv_def update_on_disk_def)
  with sv have "persist_and_sync E ?w = (Inr (), w')"
    by (simp add: persist_and_sync_def and_then_def save_rules_def)
  with dispatch_accepted [OF assms(3), of E] show ?thesis by simp
qed

section \<open>Properties\<close>

text \<open>The environment and a fresh daemon for the examples.\<close>

definition sample_env :: denv where
  "sample_env = \<lparr>net = sample_sysfs ''up'', io = sample_io, rules_set = array_set RULES_SLOTS,
     policy_set = array_set 3, config_set = array_set 1\<rparr>"

definition sample_state :: daemon_state where
  "sample_state = \<lparr>attached_interfaces = [], ds_on_disk = on_disk_default, kmaps = sample_maps, active_bank = 1,
     disk = Map.empty, map_log = []\<rparr>"

lemma sample_env_laws [simp]: "maps_ok sample_env" "maps_total sample_env" "toml_round_trip (io sample_env)" "io_read (io sample_env)"
  by (simp_all add: maps_ok_def maps_total_def sample_env_def sample_io_round_trip) (simp add: sample_io_def)

lemma sample_state_inv [simp]: "daemon_inv sample_state" "bank_consistent sample_state"
  by (simp_all add: daemon_inv_def sample_state_def wf_on_disk_def on_disk_default_def bank_ok_def bank_consistent_def sample_maps_def)

lemma sample_reset_runs: "\<exists>w'. dispatch sample_env Req_Reset sample_state = (Resp_Ok, w')"
proof -
  let ?w = "update_on_disk (spec_step Req_Reset) sample_state"
  have "fst (save (io sample_env) (disk ?w) RULES_FILE (ds_on_disk ?w)) = Inr ()"
    by (simp add: save_def sample_env_def sample_io_def sample_state_def update_on_disk_def has_parent_def
        RULES_FILE_def Let_def)
  then obtain st where sv: "save (io sample_env) (disk ?w) RULES_FILE (ds_on_disk ?w) = (Inr (), st)"
    by (metis (no_types) prod.collapse)
  have "\<exists>w'. sync_all sample_env (?w\<lparr>disk := last st\<rparr>) = (Inr (), w')"
    by (rule sync_all_succeeds) (simp_all add: update_on_disk_def on_disk_default_def sample_state_def bank_ok_def)
  with sv have "\<exists>w'. persist_and_sync sample_env ?w = (Inr (), w')"
    by (auto simp: persist_and_sync_def and_then_def save_rules_def)
  then show ?thesis by (auto simp: reset_def update_on_disk_def reset_is_default)
qed

text \<open>
  Property C8. An answer \<open>Ok\<close> means that the request is in force: the rule set is the one the
  request specifies, the rules file holds exactly that rule set, and on every well-formed
  packet, direction and interface the data path's rule walk gives the verdict of the first
  user rule that matches (or the default policy), with logging and connection tracking
  switched as the rule set requires.
\<close>

theorem ok_means_in_force:
  assumes "maps_ok E" and "toml_round_trip (io E)" and "io_read (io E)" and "daemon_inv w"
    and "dispatch E req w = (Resp_Ok, w')"
  shows "ds_on_disk w' = spec_step req (ds_on_disk w) \<and>
    load (io E) (disk w') RULES_FILE = Inr (ds_on_disk w') \<and> in_force (net E) (ds_on_disk w') (kmaps w')"
  using dispatch_ok_effect(1,2,5) [OF assms(1,4,5)] assms(2,3) by simp

theorem ok_means_in_force_witness:
  "\<exists>w'. dispatch sample_env Req_Reset sample_state = (Resp_Ok, w') \<and> in_force (net sample_env) on_disk_default (kmaps w')"
proof -
  obtain w' where w': "dispatch sample_env Req_Reset sample_state = (Resp_Ok, w')" using sample_reset_runs by blast
  from ok_means_in_force [OF _ _ _ _ w'] w' show ?thesis by auto
qed

text \<open>
  Property C11. The daemon refines its specification: whatever the environment does during each
  request (failing files, failing maps, vanishing interfaces), after any sequence of
  requests the rule set in memory is the one the abstract daemon computes, it holds at most
  256 rules with valid interface names, and the bank number is 0 or 1.
\<close>

theorem daemon_refines_specification:
  assumes "daemon_inv w"
  shows "ds_on_disk (fold serve ers w) = fold (spec_step \<circ> snd) ers (ds_on_disk w) \<and> daemon_inv (fold serve ers w)"
  using daemon.run_sim [OF assms, of ers] daemon.run_inv [OF assms, of ers] by (simp add: list_all_iff)

theorem daemon_refines_specification_witness:
  "ds_on_disk (fold serve [(sample_env, Req_SetDefault In Deny), (sample_env, Req_DeleteRule 1)] sample_state) =
   on_disk_default\<lparr>d_default_in := Deny\<rparr>"
  using daemon_refines_specification [OF sample_state_inv(1), of "[(sample_env, Req_SetDefault In Deny), (sample_env, Req_DeleteRule 1)]"]
  by (simp add: sample_state_def on_disk_default_def)

text \<open>
  Property C10. The policy switch is atomic for the packets: while the rules are rewritten, every
  state of the maps that a packet can meet gives on every packet exactly the verdict (and
  rule id) of the old rules, up to the single configuration write that publishes the new
  ones; and if the synchronisation fails at any point, the old verdicts stay.
\<close>

theorem rule_switch_is_atomic:
  assumes "maps_ok E" and "bank_consistent w" and "sync_rules E w = (res, w')" and "map_log w' = map_log w @ new"
  shows "(\<forall>m \<in> set new. (\<forall>dir ifi p. walk_rules m dir ifi p = walk_rules (kmaps w) dir ifi p) \<or>
            m = kmaps w' \<and> res = Inr ()) \<and>
         (res = Inr () \<or> (\<forall>dir ifi p. walk_rules (kmaps w') dir ifi p = walk_rules (kmaps w) dir ifi p))"
  using assms by (rule sync_rules_atomic)

definition icmp_port_rule :: user_rule where
  "icmp_port_rule = \<lparr>u_direction = In, u_action = Allow, u_iface = None, u_proto = Some Icmp, u_src = None, u_dst = None,
     u_src_port = None, u_dst_port = Some ''22''\<rparr>"

definition ping_rule :: user_rule where
  "ping_rule = icmp_port_rule\<lparr>u_dst_port := None\<rparr>"

definition ping_state :: daemon_state where
  "ping_state = sample_state\<lparr>ds_on_disk := on_disk_default\<lparr>d_rules := [ping_rule]\<rparr>\<rparr>"

lemma translate_ping_rule: "\<exists>r. translate_rules S [ping_rule] = Inr [r]"
  by (simp add: ping_rule_def icmp_port_rule_def build_wire_rule_def parse_opt_def rule_family_def port_bounds_def)

theorem rule_switch_is_atomic_witness:
  "\<exists>new w'. sync_rules sample_env ping_state = (Inr (), w') \<and> map_log w' = new \<and>
     (\<forall>m \<in> set new. walk_rules m DIR_IN 3 sample_parsed = walk_rules (kmaps ping_state) DIR_IN 3 sample_parsed \<or> m = kmaps w')"
proof -
  have cons: "bank_consistent ping_state" "bank_ok (active_bank ping_state)"
    by (simp_all add: ping_state_def sample_state_def bank_consistent_def bank_ok_def sample_maps_def)
  obtain r where r: "translate_rules (net sample_env) (d_rules (ds_on_disk ping_state)) = Inr [r]"
    using translate_ping_rule by (auto simp: ping_state_def)
  obtain w' where w': "sync_rules sample_env ping_state = (Inr (), w')"
    using sync_rules_succeeds [OF _ cons(2) r] by auto
  have "map_log w' = map_log ping_state @ map_log w'" by (simp add: ping_state_def sample_state_def)
  from rule_switch_is_atomic [OF _ cons(1) w' this] w' show ?thesis by auto
qed

text \<open>
  A refused request has no effect at all: adding to a full rule set, adding a rule
  with an invalid interface name and deleting a rule that does not exist answer with an
  error and leave rule set, files and maps exactly as they were.
\<close>

theorem refused_requests_change_nothing:
  assumes "(\<exists>r. req = Req_AddRule r \<and> (256 \<le> length (d_rules (ds_on_disk w)) \<or> (\<exists>i. u_iface r = Some i \<and> \<not> valid_iface_name i))) \<or>
    (\<exists>n. req = Req_DeleteRule n \<and> (n = 0 \<or> length (d_rules (ds_on_disk w)) < unat n))"
  shows "\<exists>e. dispatch E req w = (Resp_Err e, w)"
proof -
  have no: "\<not> accepts req (ds_on_disk w)" using assms by auto
  have "\<exists>x. dispatch E req w = to_response x" using assms by (elim disjE exE conjE) (metis dispatch.simps(4,5))+
  with dispatch_not_accepted(1) [OF no, of E] dispatch_not_accepted(3) [OF no, of E] to_response_cases
  show ?thesis by (metis fst_conv snd_conv)
qed

theorem refused_requests_change_nothing_witness:
  "\<exists>e. dispatch sample_env (Req_DeleteRule 1) sample_state = (Resp_Err e, sample_state)"
  using refused_requests_change_nothing [of "Req_DeleteRule 1" sample_state sample_env]
  by (simp add: sample_state_def on_disk_default_def)

text \<open>
  Property C19. Requests succeed on a healthy system: when the file operations and the map updates
  in range succeed and the resulting rules can be translated, a request that is not refused
  is answered with \<open>Ok\<close> (a Rust panic or a lost update cannot occur).
\<close>

theorem requests_succeed_when_healthy:
  assumes "maps_total E" and "daemon_inv w" and "accepts req (ds_on_disk w)"
    and "fst (save (io E) (disk w) RULES_FILE (spec_step req (ds_on_disk w))) = Inr ()"
    and "is_ok (translate_rules (net E) (d_rules (spec_step req (ds_on_disk w))))"
  shows "\<exists>w'. dispatch E req w = (Resp_Ok, w')"
  using assms by (rule dispatch_succeeds)

theorem requests_succeed_when_healthy_witness: "\<exists>w'. dispatch sample_env Req_Reset sample_state = (Resp_Ok, w')"
proof (rule requests_succeed_when_healthy)
  show "fst (save (io sample_env) (disk sample_state) RULES_FILE (spec_step Req_Reset (ds_on_disk sample_state))) = Inr ()"
    by (simp add: save_def sample_env_def sample_io_def sample_state_def has_parent_def RULES_FILE_def Let_def)
qed (simp_all add: on_disk_default_def)

lemma translate_rules_poisoned:
  "r \<in> set us \<Longrightarrow> (\<And>i. \<not> is_ok (build_wire_rule r i)) \<Longrightarrow> \<exists>e. translate_rules S us = Inl e"
  by (induction us) (fastforce split: sum.splits simp: rbind_def is_ok_def)+

lemma sync_all_poisoned:
  assumes "r \<in> set (d_rules (ds_on_disk w))" "\<And>i. \<not> is_ok (build_wire_rule r i)"
  shows "\<exists>e w'. sync_all E w = (Inl e, w')"
proof -
  obtain r1 w1 where w1: "sync_defaults E w = (r1, w1)" by fastforce
  then have "ds_on_disk w1 = ds_on_disk w" using sync_frame(1) [of E w] by simp
  with translate_rules_poisoned [of r _ "net E", OF assms(1,2)] obtain e where "sync_rules E w1 = (Inl e, w1)"
    by (auto simp: sync_rules_def)
  with w1 show ?thesis by (cases r1) (simp_all add: sync_all_def and_then_def)
qed

lemma persist_and_sync_poisoned:
  assumes "r \<in> set (d_rules (ds_on_disk w))" "\<And>i. \<not> is_ok (build_wire_rule r i)"
  shows "\<exists>e w'. persist_and_sync E w = (Inl e, w')"
proof -
  obtain res st where sv: "save (io E) (disk w) RULES_FILE (ds_on_disk w) = (res, st)" by fastforce
  show ?thesis
    using sync_all_poisoned [of r "w\<lparr>disk := last st\<rparr>" E] assms
    by (cases res) (simp_all add: persist_and_sync_def and_then_def save_rules_def sv)
qed


definition poison_io :: io_env where
  "poison_io = sample_io\<lparr>to_toml := (\<lambda>od. if od = on_disk_default\<lparr>d_rules := [icmp_port_rule]\<rparr> then Inr ''icmp'' else Inl (Serde_error ''unsupported'')),
     from_toml := (\<lambda>s. if s = ''icmp'' then Inr (on_disk_default\<lparr>d_rules := [icmp_port_rule]\<rparr>) else Inl (Serde_error ''syntax''))\<rparr>"




text \<open>
  A daemon that starts enforces what the rules file says: if the start succeeds,
  the rule set is the one loaded from the file, or the allow-all defaults when there is no
  readable file, and it is in force in the kernel.
\<close>

theorem started_daemon_enforces_the_file:
  assumes "maps_ok E" and "start_daemon E attached files m = Inr w"
    and "od = (case load (io E) files RULES_FILE of Inr x \<Rightarrow> x | Inl _ \<Rightarrow> on_disk_default)"
    and "length (d_rules od) \<le> 256"
  shows "ds_on_disk w = od \<and> in_force (net E) od (kmaps w) \<and> bank_consistent w"
proof -
  let ?w = "\<lparr>attached_interfaces = attached, ds_on_disk = od, kmaps = m, active_bank = 0, disk = files, map_log = []\<rparr>"
  have run: "sync_all E ?w = (Inr (), w)"
    using assms(2,3) by (auto simp: start_daemon_def Let_def split: prod.splits sum.splits)
  then have "ds_on_disk w = od" using sync_frame(3) [of E ?w] by simp
  with sync_all_in_force [OF assms(1) _ _ run] assms(4) show ?thesis by (simp add: bank_ok_def)
qed

theorem started_daemon_enforces_the_file_witness:
  "\<exists>w. start_daemon sample_env [] Map.empty sample_maps = Inr w \<and> in_force (net sample_env) on_disk_default (kmaps w)"
proof -
  let ?w = "\<lparr>attached_interfaces = [], ds_on_disk = on_disk_default, kmaps = sample_maps, active_bank = 0, disk = Map.empty, map_log = []\<rparr>"
  obtain w where "sync_all sample_env ?w = (Inr (), w)"
    using sync_all_succeeds [of sample_env ?w "[]"] by (auto simp: bank_ok_def on_disk_default_def)
  moreover have "load (io sample_env) Map.empty RULES_FILE = Inr on_disk_default"
    by (simp add: load_def on_disk_default_def)
  ultimately have "start_daemon sample_env [] Map.empty sample_maps = Inr w" by (simp add: start_daemon_def)
  with started_daemon_enforces_the_file [OF _ this refl] \<open>load _ _ _ = _\<close> show ?thesis by (simp add: on_disk_default_def)
qed

end
