(* ===== verification/Control_Socket.thy ===== *)
theory Control_Socket
  imports Daemon
begin

text \<open>
  The control protocol on the socket (\<open>read_frame\<close>, \<open>write_frame\<close>, \<open>serve_client\<close> and the
  client's \<open>call\<close>, \<open>src/crates/moatd/src/bin/moatd.rs\<close>): frames with a four-byte length in
  network order around JSON documents. A connection is the bytes that arrive at each side in
  time; a read that wants more than arrives is an error, by the end of the stream or by the
  timeout (five seconds on each side). JSON and the connection are parameters.
\<close>

section \<open>Frames\<close>

definition MAX_FRAME_BYTES :: nat where
  "MAX_FRAME_BYTES = 2 ^ 20"

definition read_exact :: "nat \<Rightarrow> u8 list \<Rightarrow> (err, u8 list \<times> u8 list) result" where
  "read_exact n s = (if length s < n then Inl (Io_error ''unexpected end of file'') else Inr (take n s, drop n s))"

definition read_frame :: "u8 list \<Rightarrow> (err, u8 list \<times> u8 list) result" where
  "read_frame s =
     rbind (read_exact 4 s) (\<lambda>(len_buf, s).
       let len = unat (be_word len_buf :: u32)
       in if len > MAX_FRAME_BYTES then Inl (Frame_too_large len)
          else read_exact len s)"

definition write_frame :: "u8 list \<Rightarrow> (err, u8 list) result" where
  "write_frame payload =
     (if length payload < 2 ^ 32 then Inr (to_be_bytes32 (of_nat (length payload)) @ payload)
      else Inl (Serde_error ''payload exceeds u32''))"

section \<open>Server and client\<close>

record json =
  request_to_json :: "request \<Rightarrow> (err, u8 list) result"
  request_of_json :: "u8 list \<Rightarrow> (err, request) result"
  response_to_json :: "response \<Rightarrow> (err, u8 list) result"
  response_of_json :: "u8 list \<Rightarrow> (err, response) result"

text \<open>What the code relies on of \<open>serde_json\<close>: a document it printed reads back.\<close>

definition json_round_trip :: "json \<Rightarrow> bool" where
  "json_round_trip J \<longleftrightarrow>
     (\<forall>q b. request_to_json J q = Inr b \<longrightarrow> request_of_json J b = Inr q) \<and>
     (\<forall>r b. response_to_json J r = Inr b \<longrightarrow> response_of_json J b = Inr r)"

text \<open>One connection as the daemon serves it: the bytes it answers with, or the error it logs;
  the state changes even when the answer cannot be sent.\<close>

definition serve_client :: "json \<Rightarrow> denv \<Rightarrow> u8 list \<Rightarrow> daemon_state \<Rightarrow> (err, u8 list) result \<times> daemon_state" where
  "serve_client J E input w =
     (case rbind (read_frame input) (\<lambda>(bytes, _). request_of_json J bytes) of
        Inl e \<Rightarrow> (Inl e, w)
      | Inr req \<Rightarrow>
          (case dispatch E req w of (resp, w') \<Rightarrow>
             (rbind (response_to_json J resp) write_frame, w')))"

text \<open>
  The connection as the client meets it: whether it can be opened and configured, whether the
  request can be written, and what of the request and of the answer arrives in time.
  \<open>link_law\<close> is what a stream socket documents: a prefix arrives.
\<close>

record link =
  connect_sock :: "(err, unit) result"
  set_timeouts :: "(err, unit) result"
  write_request :: "(err, unit) result"
  request_arrives :: "u8 list \<Rightarrow> u8 list"
  answer_arrives :: "u8 list \<Rightarrow> u8 list"

definition link_law :: "link \<Rightarrow> bool" where
  "link_law L \<longleftrightarrow> (\<forall>bs. \<exists>n. request_arrives L bs = take n bs) \<and> (\<forall>bs. \<exists>n. answer_arrives L bs = take n bs)"

text \<open>The client: a request frame out, a response frame back. A server that fails closes the
  connection, so the client reads nothing.\<close>

definition call :: "link \<Rightarrow> json \<Rightarrow> denv \<Rightarrow> request \<Rightarrow> daemon_state \<Rightarrow> (err, response) result \<times> daemon_state" where
  "call L J E req w =
     (case rbind (connect_sock L) (\<lambda>_. rbind (set_timeouts L) (\<lambda>_.
             rbind (request_to_json J req) (\<lambda>bytes.
               if length bytes < 2 ^ 32 then Inr (to_be_bytes32 (of_nat (length bytes)) @ bytes)
               else Inl (Serde_error ''request too large'')))) of
        Inl e \<Rightarrow> (Inl e, w)
      | Inr out \<Rightarrow>
          (case serve_client J E (request_arrives L out) w of (answer, w') \<Rightarrow>
             (let stream = answer_arrives L (case answer of Inr bs \<Rightarrow> bs | Inl _ \<Rightarrow> [])
              in rbind (write_request L) (\<lambda>_. rbind (read_exact 4 stream) (\<lambda>(len_buf, s).
                   let resp_len = unat (be_word len_buf :: u32)
                   in if resp_len > MAX_FRAME_BYTES then Inl (Frame_too_large resp_len)
                      else rbind (read_exact resp_len s) (\<lambda>(buf, _). response_of_json J buf))), w')))"

section \<open>Binding the socket\<close>

text \<open>
  \<open>bind_control_socket\<close>. The state is the run directory's mode, the socket file with its mode,
  and the process's umask; the environment says how each system call ends. \<open>bound_mode\<close> is
  the mode the kernel gives a fresh socket under a umask; \<open>bind_law\<close> is what \<open>bind(2)\<close>
  documents: all permissions less the umask.
\<close>

record sock_state =
  dir_mode :: "u16 option"
  sock_mode :: "u16 option"
  umask :: u16

datatype probe = Answered | Refused | Probe_failed string

record sock_env =
  mkdir_run :: bool
  chmod_run :: bool
  probe_existing :: probe
  remove_sock :: bool
  bind_sock :: bool
  chmod_sock :: bool
  bound_mode :: "u16 \<Rightarrow> u16"

definition bind_law :: "sock_env \<Rightarrow> bool" where
  "bind_law X \<longleftrightarrow> (\<forall>um. bound_mode X um = 511 AND NOT um)"

text \<open>The result and the states passed through, the first one first: \<open>0o750\<close> is 488, \<open>0o117\<close> is 79,
  \<open>0o660\<close> is 432.\<close>

definition bind_control_socket :: "sock_env \<Rightarrow> sock_state \<Rightarrow> (err, unit) result \<times> sock_state list" where
  "bind_control_socket X s =
     (if \<not> mkdir_run X then (Inl (Io_error ''creating run directory''), [s])
      else
        let s1 = s\<lparr>dir_mode := (if dir_mode s = None then Some (511 AND NOT (umask s)) else dir_mode s)\<rparr>;
            s2 = (if chmod_run X then s1\<lparr>dir_mode := Some 488\<rparr> else s1);
            bind_here = (\<lambda>prior s3.
              let prev = umask s3;
                  s4 = s3\<lparr>umask := 79\<rparr>;
                  s5 = (if bind_sock X then s4\<lparr>sock_mode := Some (bound_mode X (umask s4))\<rparr> else s4);
                  s6 = s5\<lparr>umask := prev\<rparr>
              in if \<not> bind_sock X then (Inl (Io_error ''bind''), prior @ [s4, s5, s6])
                 else if \<not> chmod_sock X then (Inl (Io_error ''chmod''), prior @ [s4, s5, s6])
                 else (Inr (), prior @ [s4, s5, s6, s6\<lparr>sock_mode := Some 432\<rparr>]))
        in if sock_mode s2 \<noteq> None then
             (case probe_existing X of
                Answered \<Rightarrow> (Inl (Io_error ''another moatd is already running''), [s, s1, s2])
              | Refused \<Rightarrow>
                  if \<not> remove_sock X then (Inl (Io_error ''removing stale socket''), [s, s1, s2])
                  else bind_here [s, s1, s2, s2\<lparr>sock_mode := None\<rparr>] (s2\<lparr>sock_mode := None\<rparr>)
              | Probe_failed e \<Rightarrow> (Inl (Io_error e), [s, s1, s2]))
           else bind_here [s, s1, s2] s2)"

section \<open>Frames survive the wire\<close>

lemma be_word_to_be_bytes32 [simp]: "be_word (to_be_bytes32 w) = w"
proof (rule bit_word_eqI)
  fix n assume "n < LENGTH(32)"
  then have n: "n < 32" by simp
  then consider "n < 8" | "8 \<le> n" "n < 16" | "16 \<le> n" "n < 24" | "24 \<le> n" "n < 32" by linarith
  then show "bit (be_word (to_be_bytes32 w) :: u32) n = bit w n"
  proof cases
    case 1
    then show ?thesis by (simp add: to_be_bytes32_def bit_be_word bit_simps)
  next
    case 2
    then obtain k where "n = 8 + k" "k < 8" by (auto simp: le_iff_add)
    then show ?thesis by (simp add: to_be_bytes32_def bit_be_word bit_simps)
  next
    case 3
    then obtain k where k: "n = 16 + k" "k < 8" by (auto simp: le_iff_add)
    then have "(16 + k) mod 8 = k" by presburger
    with k show ?thesis by (simp add: to_be_bytes32_def bit_be_word bit_simps)
  next
    case 4
    then obtain k where k: "n = 24 + k" "k < 8" by (auto simp: le_iff_add)
    then have "(24 + k) mod 8 = k" by presburger
    with k show ?thesis by (simp add: to_be_bytes32_def bit_be_word bit_simps)
  qed
qed

lemma length_to_be_bytes32 [simp]: "length (to_be_bytes32 w) = 4"
  by (simp add: to_be_bytes32_def)

lemma read_exact_append: "length a = n \<Longrightarrow> read_exact n (a @ b) = Inr (a, b)"
  by (simp add: read_exact_def)

lemma read_frame_header:
  assumes "n < 2 ^ 32"
  shows "read_frame (to_be_bytes32 (of_nat n) @ s) = (if n > MAX_FRAME_BYTES then Inl (Frame_too_large n) else read_exact n s)"
proof -
  have "unat (of_nat n :: u32) = n" using assms by (simp add: unat_of_nat)
  then show ?thesis by (simp add: read_frame_def read_exact_append)
qed

definition frame_ok :: "u8 list \<Rightarrow> bool" where
  "frame_ok p \<longleftrightarrow> length p \<le> MAX_FRAME_BYTES"

lemma read_write_frame:
  assumes "frame_ok p"
  shows "\<exists>f. write_frame p = Inr f \<and> read_frame (f @ tail_bytes) = Inr (p, tail_bytes)"
  using assms read_frame_header [of "length p" "p @ tail_bytes"]
  by (simp add: frame_ok_def MAX_FRAME_BYTES_def write_frame_def read_exact_append)

definition frame_bytes :: "u8 list \<Rightarrow> u8 list" where
  "frame_bytes p = (case write_frame p of Inr f \<Rightarrow> f | Inl _ \<Rightarrow> [])"

definition unframe :: "u8 list \<Rightarrow> u8 list option" where
  "unframe s = (case read_frame s of Inr (p, []) \<Rightarrow> Some p | _ \<Rightarrow> None)"

interpretation frames: codec frame_bytes unframe frame_ok
proof
  fix p assume "frame_ok p"
  with read_write_frame [of p "[]"] show "unframe (frame_bytes p) = Some p"
    by (auto simp: frame_bytes_def unframe_def)
qed

text \<open>What a prefix of a stream reads as, the stream reads as.\<close>

lemma read_exact_take: "read_exact k (take n s) = Inr (a, r) \<Longrightarrow> read_exact k s = Inr (a, drop k s) \<and> r = take (n - k) (drop k s)"
  by (auto simp: read_exact_def drop_take min_def split: if_splits)

lemma read_frame_take:
  assumes "read_frame (take n s) = Inr (p, r)"
  shows "\<exists>r'. read_frame s = Inr (p, r')"
proof -
  obtain hdr s1 where h: "read_exact 4 (take n s) = Inr (hdr, s1)" using assms by (auto simp: read_frame_def)
  from read_exact_take [OF h] assms h show ?thesis
    by (auto simp: read_frame_def Let_def split: if_splits dest: read_exact_take)
qed

text \<open>A connection that loses nothing.\<close>

definition direct :: link where
  "direct = \<lparr>connect_sock = Inr (), set_timeouts = Inr (), write_request = Inr (),
     request_arrives = (\<lambda>bs. bs), answer_arrives = (\<lambda>bs. bs)\<rparr>"

lemma direct_law [simp]: "link_law direct"
  unfolding link_law_def direct_def by simp (metis order_refl take_all_iff)

text \<open>A call that fits is a call of the handler.\<close>

lemma call_dispatch:
  assumes "json_round_trip J" "request_to_json J req = Inr q" "frame_ok q"
    and "response_to_json J (fst (dispatch E req w)) = Inr a" "frame_ok a"
  shows "call direct J E req w = (Inr (fst (dispatch E req w)), snd (dispatch E req w))"
proof -
  obtain resp w' where d: "dispatch E req w = (resp, w')" by fastforce
  let ?out = "to_be_bytes32 (of_nat (length q)) @ q" and ?ans = "to_be_bytes32 (of_nat (length a)) @ a"
  have small: "length q < 2 ^ 32" "length a < 2 ^ 32" "length q \<le> MAX_FRAME_BYTES" "length a \<le> MAX_FRAME_BYTES"
    using assms(3,5) by (simp_all add: frame_ok_def MAX_FRAME_BYTES_def)
  have "read_frame ?out = Inr (q, [])"
    using read_frame_header [OF small(1), of q] small(3) read_exact_append [of q "length q" "[]"] by simp
  moreover have "request_of_json J q = Inr req" "response_of_json J a = Inr resp"
    using assms(1,2,4) by (simp_all add: json_round_trip_def d)
  ultimately have "serve_client J E ?out w = (Inr ?ans, w')"
    using assms(4) small(2) by (simp add: serve_client_def d write_frame_def)
  moreover have "unat (of_nat (length a) :: u32) = length a" using small(2) by (simp add: unat_of_nat)
  ultimately show ?thesis
    using assms(2) small read_exact_append [of a "length a" "[]"] \<open>response_of_json J a = Inr resp\<close>
    by (simp add: call_def direct_def d read_exact_append Let_def)
qed

text \<open>What the server makes of whatever arrives of a request.\<close>

lemma serve_client_arrived:
  assumes "json_round_trip J" "request_to_json J req = Inr q" "length q < 2 ^ 32"
    and "serve_client J E (take n (to_be_bytes32 (of_nat (length q)) @ q)) w = (answer, w')"
  shows "(\<exists>e. answer = Inl e) \<and> w' = w \<or>
    w' = snd (dispatch E req w) \<and> answer = rbind (response_to_json J (fst (dispatch E req w))) write_frame"
proof -
  let ?out = "to_be_bytes32 (of_nat (length q)) @ q"
  consider e where "read_frame (take n ?out) = Inl e" | p r where "read_frame (take n ?out) = Inr (p, r)"
    by (cases "read_frame (take n ?out)") auto
  then show ?thesis
  proof cases
    case 1
    then show ?thesis using assms(4) by (auto simp: serve_client_def simp del: take_append)
  next
    case 2
    then have "p = q"
      using read_frame_take [OF 2] read_frame_header [OF assms(3), of q] read_exact_append [of q "length q" "[]"]
      by (auto split: if_splits)
    moreover have "request_of_json J q = Inr req" using assms(1,2) by (simp add: json_round_trip_def)
    ultimately show ?thesis using 2 assms(4) by (auto simp: serve_client_def split: prod.splits)
  qed
qed

text \<open>What the client receives is what the handler answered.\<close>

lemma call_answers:
  assumes "json_round_trip J" "link_law L" "call L J E req w = (Inr resp, w')"
  shows "dispatch E req w = (resp, w')"
proof -
  obtain q where q: "request_to_json J req = Inr q" "length q < 2 ^ 32" "connect_sock L = Inr ()" "set_timeouts L = Inr ()"
    using assms(3) by (auto simp: call_def split: sum.splits if_splits elim!: rbind_eq_Inr [THEN iffD1, THEN exE])
  let ?out = "to_be_bytes32 (of_nat (length q)) @ q"
  obtain n where n: "request_arrives L ?out = take n ?out" using assms(2) unfolding link_law_def by blast
  obtain answer w1 where sc: "serve_client J E (take n ?out) w = (answer, w1)" by fastforce
  let ?bs = "case answer of Inr bs \<Rightarrow> bs | Inl _ \<Rightarrow> []"
  obtain k where k: "answer_arrives L ?bs = take k ?bs" using assms(2) unfolding link_law_def by blast
  obtain hdr s where rd: "read_exact 4 (take k ?bs) = Inr (hdr, s)" "w1 = w'"
    and body: "rbind (read_exact (unat (be_word hdr :: u32)) s) (\<lambda>(buf, _). response_of_json J buf) = Inr resp"
    using assms(3) q sc n k by (auto simp: call_def Let_def split: if_splits)
  from read_exact_take [OF rd(1)] have ne: "?bs \<noteq> []" by (auto simp: read_exact_def)
  then obtain ans where ans: "answer = Inr ans" by (cases answer) auto
  with serve_client_arrived [OF assms(1) q(1,2) sc] rd(2)
  have "w' = snd (dispatch E req w)" "rbind (response_to_json J (fst (dispatch E req w))) write_frame = Inr ans" by auto
  then obtain a where
    d: "w' = snd (dispatch E req w)" "response_to_json J (fst (dispatch E req w)) = Inr a" "write_frame a = Inr ans" by auto
  then have a: "length a < 2 ^ 32" "ans = to_be_bytes32 (of_nat (length a)) @ a" by (auto simp: write_frame_def split: if_splits)
  have hdr: "hdr = to_be_bytes32 (of_nat (length a))" "s = take (k - 4) a"
    using read_exact_take [OF rd(1)] by (auto simp: ans a(2) read_exact_append)
  have "unat (of_nat (length a) :: u32) = length a" using a(1) by (simp add: unat_of_nat)
  with body hdr have "response_of_json J a = Inr resp"
    by (auto simp: read_exact_def split: if_splits)
  with assms(1) d show ?thesis by (simp add: json_round_trip_def prod_eq_iff)
qed

text \<open>Whatever a remote call returns, it has run the handler once or not at all.\<close>

lemma call_runs_once:
  assumes "json_round_trip J" "link_law L"
  shows "snd (call L J E req w) = w \<or> snd (call L J E req w) = snd (dispatch E req w)"
proof (cases "connect_sock L = Inr () \<and> set_timeouts L = Inr () \<and> (\<exists>q. request_to_json J req = Inr q \<and> length q < 2 ^ 32)")
  case True
  then obtain q where q: "request_to_json J req = Inr q" "length q < 2 ^ 32" by blast
  let ?out = "to_be_bytes32 (of_nat (length q)) @ q"
  obtain n where n: "request_arrives L ?out = take n ?out" using assms(2) unfolding link_law_def by blast
  obtain answer w1 where sc: "serve_client J E (take n ?out) w = (answer, w1)" by fastforce
  from serve_client_arrived [OF assms(1) q sc] True q n sc show ?thesis by (auto simp: call_def)
next
  case False
  then show ?thesis by (auto simp: call_def rbind_def split: sum.splits if_splits)
qed

section \<open>Properties\<close>

text \<open>
  Property C29. Framing is lossless and bounded: every payload of at most one mebibyte that is
  written as a frame is read back exactly, leaving whatever follows on the stream untouched,
  and the frame of a longer payload is refused by the reader before any of it is read.
\<close>

theorem frames_round_trip:
  "if length p \<le> MAX_FRAME_BYTES
   then \<exists>f. write_frame p = Inr f \<and> read_frame (f @ tail_bytes) = Inr (p, tail_bytes)
   else length p \<ge> 2 ^ 32 \<or>
     (\<exists>f. write_frame p = Inr f \<and> read_frame (f @ tail_bytes) = Inl (Frame_too_large (length p)))"
  using read_write_frame [of p tail_bytes] read_frame_header [of "length p" "p @ tail_bytes"]
  by (auto simp: frame_ok_def write_frame_def)

text \<open>
  The remote call is transparent: when request and response fit in a frame, the
  client receives exactly the handler's response and the daemon's state is the handler's.
\<close>

theorem remote_call_is_dispatch:
  assumes "json_round_trip J" and "request_to_json J req = Inr q" and "length q \<le> MAX_FRAME_BYTES"
    and "response_to_json J (fst (dispatch E req w)) = Inr a" and "length a \<le> MAX_FRAME_BYTES"
  shows "call direct J E req w = (Inr (fst (dispatch E req w)), snd (dispatch E req w))"
  using assms call_dispatch by (simp add: frame_ok_def)

definition sample_json :: json where
  "sample_json = \<lparr>request_to_json = (\<lambda>q. if q = Req_Ping then Inr [1] else Inl (Serde_error ''unsupported'')),
     request_of_json = (\<lambda>b. if b = [1] then Inr Req_Ping else Inl (Serde_error ''syntax'')),
     response_to_json = (\<lambda>r. if r = Resp_Pong then Inr [2] else Inl (Serde_error ''unsupported'')),
     response_of_json = (\<lambda>b. if b = [2] then Inr Resp_Pong else Inl (Serde_error ''syntax''))\<rparr>"

theorem remote_call_is_dispatch_witness: "call direct sample_json sample_env Req_Ping sample_state = (Inr Resp_Pong, sample_state)"
proof -
  have "json_round_trip sample_json" by (auto simp: json_round_trip_def sample_json_def split: if_splits)
  from remote_call_is_dispatch [OF this, of Req_Ping "[1]" sample_env sample_state "[2]"] show ?thesis
    by (simp add: sample_json_def MAX_FRAME_BYTES_def)
qed

text \<open>
  Property C32. The control socket is private from its first moment on: in every state that binding
  passes through, the socket file is the one that was there before or has mode 0660; the
  umask is the process's own again at the end, however binding ends; a socket that another
  daemon answers on is left alone; and success means a bound socket of mode 0660.
\<close>

theorem control_socket_is_private:
  assumes "bind_law X"
  shows "(\<forall>t \<in> set (snd (bind_control_socket X s)). sock_mode t \<in> {sock_mode s, None, Some 432}) \<and>
    umask (last (snd (bind_control_socket X s))) = umask s \<and>
    (sock_mode s \<noteq> None \<and> probe_existing X = Answered \<longrightarrow>
       fst (bind_control_socket X s) \<noteq> Inr () \<and> (\<forall>t \<in> set (snd (bind_control_socket X s)). sock_mode t = sock_mode s)) \<and>
    (fst (bind_control_socket X s) = Inr () \<longrightarrow> sock_mode (last (snd (bind_control_socket X s))) = Some 432)"
proof -
  have bound: "bound_mode X 79 = 432" using assms by (simp add: bind_law_def)
  show ?thesis
    by (cases "sock_mode s"; cases "probe_existing X") (simp_all add: bind_control_socket_def Let_def bound)
qed

definition stale_env :: sock_env where
  "stale_env = \<lparr>mkdir_run = True, chmod_run = True, probe_existing = Refused, remove_sock = True, bind_sock = True,
     chmod_sock = False, bound_mode = (\<lambda>um. 511 AND NOT um)\<rparr>"

theorem control_socket_is_private_witness:
  "list_all (\<lambda>t. sock_mode t \<in> {Some 511, None, Some 432})
     (snd (bind_control_socket stale_env \<lparr>dir_mode = None, sock_mode = Some 511, umask = 18\<rparr>)) \<and>
   umask (last (snd (bind_control_socket stale_env \<lparr>dir_mode = None, sock_mode = Some 511, umask = 18\<rparr>))) = 18"
proof -
  have "bind_law stale_env" by (simp add: bind_law_def stale_env_def)
  from control_socket_is_private [OF this, of "\<lparr>dir_mode = None, sock_mode = Some 511, umask = 18\<rparr>"] show ?thesis by (simp add: list_all_iff)
qed

end
