(* ===== verification/Rule_Parser.thy ===== *)
theory Rule_Parser
  imports Moat_Common "HOL-Library.List_Lexorder" "HOL-Library.Char_ord"
begin

text \<open>
  The command line's rule grammar (\<open>src/crates/moatd/src/parser.rs\<close>) and the application
  profiles it expands (\<open>src/crates/moatd/src/apps.rs\<close>). The profile directory and the TOML
  reader are parameters. The properties: what the parser accepts is well formed and keeps
  the action, a profile yields one rule per port, and every rule has a spelling.
\<close>

section \<open>Application profiles\<close>

record app_profile =
  a_name :: string
  a_ports :: string
  a_proto :: string

definition APPS_DIR :: string where
  "APPS_DIR = ''/etc/moatd/applications.d''"

text \<open>The file system as the profile code sees it, and \<open>toml::from_str\<close>; \<open>toml_proto\<close> is
  \<^term>\<open>None\<close> where the document has no key \<open>proto\<close>.\<close>

record app_env =
  app_exists :: "string \<Rightarrow> bool"
  app_read :: "string \<Rightarrow> (err, string) result"
  app_toml :: "string \<Rightarrow> (err, string \<times> string \<times> string option) result"
  app_dir :: "string \<Rightarrow> (err, (err, string) result list) result"

definition default_proto :: string where
  "default_proto = ''any''"

definition profile_path :: "string \<Rightarrow> string" where
  "profile_path name = APPS_DIR @ ''/'' @ name @ ''.toml''"

definition apps_load :: "app_env \<Rightarrow> string \<Rightarrow> (err, app_profile option) result" where
  "apps_load E name =
     (let path = profile_path name
      in if \<not> app_exists E path then Inr None
         else rbind (app_read E path) (\<lambda>body.
              rbind (app_toml E body) (\<lambda>(n, ports, proto).
              Inr (Some \<lparr>a_name = n, a_ports = ports,
                         a_proto = (case proto of Some p \<Rightarrow> p | None \<Rightarrow> default_proto)\<rparr>))))"

text \<open>\<open>Path::file_stem\<close> and \<open>Path::extension\<close> of a directory entry's name.\<close>

definition split_file_name :: "string \<Rightarrow> string option \<times> string option" where
  "split_file_name f =
     (if f = ''..'' then (Some f, None)
      else case rsplit_once CHR ''.'' f of
             None \<Rightarrow> (Some f, None)
           | Some (before, after) \<Rightarrow> if before = [] then (Some f, None) else (Some before, Some after))"

fun apps_list_loop :: "(err, string) result list \<Rightarrow> string list \<Rightarrow> (err, string list) result" where
  "apps_list_loop [] names = Inr names"
| "apps_list_loop (entry # entries) names =
     rbind entry (\<lambda>f.
       case split_file_name f of
         (stem, ext) \<Rightarrow>
           if ext \<noteq> Some ''toml'' then apps_list_loop entries names
           else apps_list_loop entries (case stem of Some s \<Rightarrow> names @ [s] | None \<Rightarrow> names))"

definition apps_list :: "app_env \<Rightarrow> (err, string list) result" where
  "apps_list E =
     (if \<not> app_exists E APPS_DIR then Inr []
      else rbind (app_dir E APPS_DIR) (\<lambda>entries.
           rbind (apps_list_loop entries []) (\<lambda>names. Inr (sort names))))"

section \<open>The grammar\<close>

definition parse_proto :: "string \<Rightarrow> (err, protocol) result" where
  "parse_proto s =
     (let l = to_ascii_lowercase s
      in if l = ''tcp'' then Inr Tcp
         else if l = ''udp'' then Inr Udp
         else if l = ''icmp'' then Inr Icmp
         else if l = ''any'' then Inr Any
         else Inl (Spec_err (Unknown_protocol l)))"

definition validate_iface :: "string \<Rightarrow> (err, unit) result" where
  "validate_iface name = (if \<not> valid_iface_name name then Inl (Invalid_iface name) else Inr ())"

definition set_dst_port :: "user_rule \<Rightarrow> string \<Rightarrow> (err, user_rule) result" where
  "set_dst_port rule port =
     (if u_dst_port rule \<noteq> None then Inl (Spec_err (Specified_twice ''destination port''))
      else Inr (rule\<lparr>u_dst_port := Some port\<rparr>))"

definition blank_rule :: "action \<Rightarrow> user_rule" where
  "blank_rule action =
     \<lparr>u_direction = In, u_action = action, u_iface = None, u_proto = None, u_src = None, u_dst = None,
      u_src_port = None, u_dst_port = None\<rparr>"

definition rule_with_port :: "action \<Rightarrow> string \<Rightarrow> protocol option \<Rightarrow> user_rule" where
  "rule_with_port action port proto =
     \<lparr>u_direction = In, u_action = action, u_iface = None, u_proto = proto, u_src = None, u_dst = None,
      u_src_port = None, u_dst_port = Some port\<rparr>"

text \<open>The first loop: leading \<open>in\<close> and \<open>out\<close>, the iterator peeked at.\<close>

fun parse_directions :: "user_rule \<Rightarrow> bool \<Rightarrow> string list \<Rightarrow> (err, user_rule \<times> string list) result" where
  "parse_directions rule dir_set [] = Inr (rule, [])"
| "parse_directions rule dir_set (tok # toks) =
     (if tok = ''in'' then
        (if dir_set then Inl (Spec_err (Specified_twice ''direction''))
         else parse_directions (rule\<lparr>u_direction := In\<rparr>) True toks)
      else if tok = ''out'' then
        (if dir_set then Inl (Spec_err (Specified_twice ''direction''))
         else parse_directions (rule\<lparr>u_direction := Out\<rparr>) True toks)
      else Inr (rule, tok # toks))"

text \<open>The second loop: the clauses.\<close>

fun parse_clauses :: "user_rule \<Rightarrow> bool \<Rightarrow> bool \<Rightarrow> string list \<Rightarrow> (err, user_rule) result" where
  "parse_clauses rule from_seen to_seen [] = Inr rule"
| "parse_clauses rule from_seen to_seen (tok # toks) =
     (if tok = ''on'' then
        (if u_iface rule \<noteq> None then Inl (Spec_err (Specified_twice ''on''))
         else case toks of
                [] \<Rightarrow> Inl (Spec_err (Expected ''interface''))
              | iface # toks' \<Rightarrow>
                  rbind (validate_iface iface) (\<lambda>_.
                    parse_clauses (rule\<lparr>u_iface := Some iface\<rparr>) from_seen to_seen toks'))
      else if tok = ''from'' then
        (if from_seen then Inl (Spec_err (Specified_twice ''from''))
         else case toks of
                [] \<Rightarrow> Inl (Spec_err (Expected ''address''))
              | cidr # toks' \<Rightarrow>
                  let rule = (if cidr \<noteq> ''any'' then rule\<lparr>u_src := Some cidr\<rparr> else rule)
                  in (case toks' of
                        n # toks'' \<Rightarrow>
                          if n = ''port'' then
                            (case toks'' of
                               [] \<Rightarrow> Inl (Spec_err (Expected ''port''))
                             | p # toks''' \<Rightarrow> parse_clauses (rule\<lparr>u_src_port := Some p\<rparr>) True to_seen toks''')
                          else parse_clauses rule True to_seen toks'
                      | [] \<Rightarrow> parse_clauses rule True to_seen toks'))
      else if tok = ''to'' then
        (if to_seen then Inl (Spec_err (Specified_twice ''to''))
         else case toks of
                [] \<Rightarrow> Inl (Spec_err (Expected ''address''))
              | cidr # toks' \<Rightarrow>
                  let rule = (if cidr \<noteq> ''any'' then rule\<lparr>u_dst := Some cidr\<rparr> else rule)
                  in (case toks' of
                        n # toks'' \<Rightarrow>
                          if n = ''port'' then
                            (case toks'' of
                               [] \<Rightarrow> Inl (Spec_err (Expected ''port''))
                             | p # toks''' \<Rightarrow>
                                 rbind (set_dst_port rule p) (\<lambda>rule. parse_clauses rule from_seen True toks'''))
                          else parse_clauses rule from_seen True toks'
                      | [] \<Rightarrow> parse_clauses rule from_seen True toks'))
      else if tok = ''port'' then
        (case toks of
           [] \<Rightarrow> Inl (Spec_err (Expected ''port''))
         | p # toks' \<Rightarrow> rbind (set_dst_port rule p) (\<lambda>rule. parse_clauses rule from_seen to_seen toks'))
      else if tok = ''proto'' then
        (if u_proto rule \<noteq> None then Inl (Spec_err (Specified_twice ''proto''))
         else case toks of
                [] \<Rightarrow> Inl (Spec_err (Expected ''protocol''))
              | p # toks' \<Rightarrow>
                  rbind (parse_proto p) (\<lambda>pr.
                    parse_clauses (rule\<lparr>u_proto := Some pr\<rparr>) from_seen to_seen toks'))
      else Inl (Spec_err (Unexpected_token tok)))"

definition parse_full_grammar :: "action \<Rightarrow> string list \<Rightarrow> (err, user_rule) result" where
  "parse_full_grammar action toks =
     rbind (parse_directions (blank_rule action) False toks) (\<lambda>(rule, rest).
       parse_clauses rule False False rest)"

definition expand_profile :: "action \<Rightarrow> app_profile \<Rightarrow> (err, user_rule list) result" where
  "expand_profile action profile =
     rbind (if a_proto profile = '''' \<or> a_proto profile = ''any'' then Inr None
            else rbind (parse_proto (a_proto profile)) (\<lambda>p. Inr (Some p))) (\<lambda>proto.
       let ports = filter (\<lambda>p. p \<noteq> []) (map trim (split_on CHR '','' (a_ports profile)))
       in if ports = [] then Inl (Spec_err (No_ports (a_name profile)))
          else Inr (map (\<lambda>port. rule_with_port action port proto) ports))"

definition parse_shorthand :: "app_env \<Rightarrow> string \<Rightarrow> action \<Rightarrow> (err, user_rule list option) result" where
  "parse_shorthand E tok action =
     (let profile =
        rbind (apps_load E tok) (\<lambda>p.
          case p of
            Some profile \<Rightarrow> rbind (expand_profile action profile) (\<lambda>rs. Inr (Some rs))
          | None \<Rightarrow> Inr None)
      in if parse_u16 tok \<noteq> None then Inr (Some [rule_with_port action tok None])
         else case split_once CHR ''/'' tok of
                Some (port, proto) \<Rightarrow>
                  if parse_u16 port \<noteq> None
                  then rbind (parse_proto proto) (\<lambda>pr. Inr (Some [rule_with_port action port (Some pr)]))
                  else profile
              | None \<Rightarrow> profile)"

definition parse_rule_spec :: "app_env \<Rightarrow> action \<Rightarrow> string list \<Rightarrow> (err, user_rule list) result" where
  "parse_rule_spec E action toks =
     (if toks = [] then Inl (Spec_err Empty_rule_spec)
      else
        let full = rbind (parse_full_grammar action toks) (\<lambda>r. Inr [r])
        in if length toks = 1 then
             rbind (parse_shorthand E (toks ! 0) action) (\<lambda>rs.
               case rs of Some rules \<Rightarrow> Inr rules | None \<Rightarrow> full)
           else full)"

definition parse_default_args :: "string list \<Rightarrow> (err, direction \<times> action) result" where
  "parse_default_args args =
     (if length args \<noteq> 2 then Inl (Spec_err Default_usage)
      else
        rbind (let a = to_ascii_lowercase (args ! 0)
               in if a = ''allow'' then Inr Allow
                  else if a = ''deny'' then Inr Deny
                  else if a = ''reject'' then Inr Reject
                  else Inl (Spec_err (Unknown_action a))) (\<lambda>action.
        rbind (let d = to_ascii_lowercase (args ! 1)
               in if d = ''in'' \<or> d = ''incoming'' then Inr In
                  else if d = ''out'' \<or> d = ''outgoing'' then Inr Out
                  else Inl (Spec_err (Unknown_direction d))) (\<lambda>direction.
        Inr (direction, action))))"

section \<open>What the parser accepts\<close>

definition spec_ok :: "action \<Rightarrow> user_rule \<Rightarrow> bool" where
  "spec_ok action u \<longleftrightarrow> u_action u = action \<and> (case u_iface u of None \<Rightarrow> True | Some i \<Rightarrow> valid_iface_name i)"

lemma set_dst_port_Inr: "set_dst_port r p = Inr r' \<longleftrightarrow> u_dst_port r = None \<and> r' = r\<lparr>u_dst_port := Some p\<rparr>"
  by (auto simp: set_dst_port_def)

lemma validate_iface_Inr: "validate_iface i = Inr x \<longleftrightarrow> valid_iface_name i"
  by (simp add: validate_iface_def)

lemma parse_directions_ok: "parse_directions r b toks = Inr (r', rest) \<Longrightarrow> spec_ok a r \<Longrightarrow> spec_ok a r'"
  by (induction r b toks rule: parse_directions.induct) (auto simp: spec_ok_def split: if_splits)

declare parse_clauses.simps(2) [simp del]

text \<open>One clause: it consumes tokens, and changes the interface only to a valid one.\<close>

definition clause_step :: "user_rule \<Rightarrow> string list \<Rightarrow> user_rule \<Rightarrow> string list \<Rightarrow> bool" where
  "clause_step r toks r' rest \<longleftrightarrow> length rest < length toks \<and> (\<forall>a. spec_ok a r \<longrightarrow> spec_ok a r')"

lemma clause_stepI:
  "length rest < length toks \<Longrightarrow> u_action r' = u_action r \<Longrightarrow>
   u_iface r' = u_iface r \<or> (\<exists>i. u_iface r' = Some i \<and> valid_iface_name i) \<Longrightarrow> clause_step r toks r' rest"
  by (auto simp: clause_step_def spec_ok_def)

lemma clause_exI:
  "parse_clauses r1 f1 t1 rest = Inr r' \<Longrightarrow> length rest < length toks \<Longrightarrow> u_action r1 = u_action r \<Longrightarrow>
   u_iface r1 = u_iface r \<or> (\<exists>i. u_iface r1 = Some i \<and> valid_iface_name i) \<Longrightarrow>
   \<exists>r1 f1 t1 rest. parse_clauses r1 f1 t1 rest = Inr r' \<and> clause_step r toks r1 rest"
  using clause_stepI by blast

lemma parse_clauses_Cons:
  assumes "parse_clauses r f t (tok # toks) = Inr r'"
  shows "\<exists>r1 f1 t1 rest. parse_clauses r1 f1 t1 rest = Inr r' \<and> clause_step r (tok # toks) r1 rest"
proof -
  note run = assms [unfolded parse_clauses.simps(2) [of r f t tok toks]]
  consider "tok = ''on''" | "tok = ''from''" | "tok = ''to''" | "tok = ''port''" | "tok = ''proto''"
    | "tok \<notin> {''on'', ''from'', ''to'', ''port'', ''proto''}" by blast
  then show ?thesis
  proof cases
    case 1
    with run show ?thesis by (auto simp del: parse_clauses.simps simp add: validate_iface_Inr split: list.splits if_splits elim!: clause_exI)
  next
    case 2
    with run show ?thesis by (auto simp del: parse_clauses.simps simp add: Let_def split: list.splits if_splits elim!: clause_exI)
  next
    case 3
    with run show ?thesis by (auto simp del: parse_clauses.simps simp add: Let_def set_dst_port_Inr split: list.splits if_splits elim!: clause_exI)
  next
    case 4
    with run show ?thesis by (auto simp del: parse_clauses.simps simp add: set_dst_port_Inr split: list.splits elim!: clause_exI)
  next
    case 5
    with run show ?thesis by (auto simp del: parse_clauses.simps split: list.splits if_splits elim!: clause_exI)
  next
    case 6
    with run show ?thesis by simp
  qed
qed

lemma parse_clauses_ok: "parse_clauses r f t toks = Inr r' \<Longrightarrow> spec_ok a r \<Longrightarrow> spec_ok a r'"
proof (induction toks arbitrary: r f t rule: length_induct)
  case (1 toks)
  show ?case
  proof (cases toks)
    case Nil
    with 1 show ?thesis by simp
  next
    case (Cons tok ts)
    with "1.prems"(1) parse_clauses_Cons obtain r1 f1 t1 rest
      where "parse_clauses r1 f1 t1 rest = Inr r'" "clause_step r toks r1 rest" by blast
    with "1.IH" "1.prems"(2) show ?thesis by (auto simp: clause_step_def)
  qed
qed

lemma parse_rule_spec_ok:
  assumes "parse_rule_spec E a toks = Inr us"
  shows "us \<noteq> [] \<and> list_all (spec_ok a) us"
proof -
  have port: "spec_ok a (rule_with_port a p pr)" for p pr by (simp add: spec_ok_def rule_with_port_def)
  have full: "spec_ok a u" if "parse_full_grammar a toks = Inr u" for u
  proof -
    have "spec_ok a (blank_rule a)" by (simp add: spec_ok_def blank_rule_def)
    with that parse_directions_ok parse_clauses_ok show ?thesis
      by (auto simp: parse_full_grammar_def split: prod.splits)
  qed
  have prof: "rs \<noteq> [] \<and> list_all (spec_ok a) rs" if "expand_profile a pr = Inr rs" for pr rs
    using that port by (auto simp: expand_profile_def list_all_iff Let_def split: if_splits)
  have short: "rs \<noteq> [] \<and> list_all (spec_ok a) rs" if "parse_shorthand E tok a = Inr (Some rs)" for tok rs
    using that port by (auto simp: parse_shorthand_def Let_def split: if_splits option.splits dest!: prof)
  from assms full short show ?thesis
    by (auto simp: parse_rule_spec_def Let_def split: if_splits option.splits)
qed

section \<open>Every rule has a spelling\<close>

fun proto_word :: "protocol \<Rightarrow> string" where
  "proto_word Tcp = ''tcp''"
| "proto_word Udp = ''udp''"
| "proto_word Icmp = ''icmp''"
| "proto_word Any = ''any''"

definition dir_word :: "direction \<Rightarrow> string" where
  "dir_word d = (case d of In \<Rightarrow> ''in'' | Out \<Rightarrow> ''out'')"

definition port_words :: "string option \<Rightarrow> string list" where
  "port_words p = (case p of None \<Rightarrow> [] | Some n \<Rightarrow> [''port'', n])"

definition addr_word :: "string option \<Rightarrow> string" where
  "addr_word a = (case a of None \<Rightarrow> ''any'' | Some s \<Rightarrow> s)"

definition spec_tokens :: "user_rule \<Rightarrow> string list" where
  "spec_tokens u =
     [dir_word (u_direction u)] @ (case u_iface u of None \<Rightarrow> [] | Some i \<Rightarrow> [''on'', i]) @
     [''from'', addr_word (u_src u)] @ port_words (u_src_port u) @
     [''to'', addr_word (u_dst u)] @ port_words (u_dst_port u) @
     (case u_proto u of None \<Rightarrow> [] | Some p \<Rightarrow> [''proto'', proto_word p])"

lemma parse_proto_word [simp]: "parse_proto (proto_word p) = Inr p"
  by (cases p) (simp_all add: parse_proto_def to_ascii_lowercase_def ascii_lower_def)

lemma parse_from:
  assumes "u_src r = None" "u_src_port r = None" "src \<noteq> Some ''any''" "toks = [] \<or> hd toks \<noteq> ''port''"
  shows "parse_clauses r False t ([''from'', addr_word src] @ port_words sp @ toks) =
     parse_clauses (r\<lparr>u_src := src, u_src_port := sp\<rparr>) True t toks"
  using assms parse_clauses.simps(2) [of r False t "''from''" "addr_word src # port_words sp @ toks"]
  by (cases r; cases src; cases sp; cases toks) (simp_all add: addr_word_def port_words_def)

lemma parse_to:
  assumes "u_dst r = None" "u_dst_port r = None" "dst \<noteq> Some ''any''" "toks = [] \<or> hd toks \<noteq> ''port''"
  shows "parse_clauses r f False ([''to'', addr_word dst] @ port_words dp @ toks) =
     parse_clauses (r\<lparr>u_dst := dst, u_dst_port := dp\<rparr>) f True toks"
  using assms parse_clauses.simps(2) [of r f False "''to''" "addr_word dst # port_words dp @ toks"]
  by (cases r; cases dst; cases dp; cases toks) (simp_all add: addr_word_def port_words_def set_dst_port_def)

lemma parse_on:
  "u_iface r = None \<Longrightarrow> valid_iface_name i \<Longrightarrow>
   parse_clauses r f t (''on'' # i # toks) = parse_clauses (r\<lparr>u_iface := Some i\<rparr>) f t toks"
  by (subst parse_clauses.simps(2)) (simp add: validate_iface_def)

lemma parse_proto_clause:
  "u_proto r = None \<Longrightarrow>
   parse_clauses r f t (case pr of None \<Rightarrow> [] | Some p \<Rightarrow> [''proto'', proto_word p]) = Inr (r\<lparr>u_proto := pr\<rparr>)"
  by (cases r; cases pr) (simp_all add: parse_clauses.simps(2))

text \<open>The words of a rule's fields must not collide with the grammar.\<close>

definition spellable :: "user_rule \<Rightarrow> bool" where
  "spellable u \<longleftrightarrow> u_src u \<noteq> Some ''any'' \<and> u_dst u \<noteq> Some ''any'' \<and>
     (case u_iface u of None \<Rightarrow> True | Some i \<Rightarrow> valid_iface_name i)"

lemma parse_directions_spec:
  "toks = [] \<or> hd toks \<notin> {''in'', ''out''} \<Longrightarrow>
   parse_directions r False (dir_word d # toks) = Inr (r\<lparr>u_direction := d\<rparr>, toks)"
  by (cases toks; cases d) (simp_all add: dir_word_def)

lemma parse_full_spec_tokens:
  assumes "spellable u"
  shows "parse_full_grammar (u_action u) (spec_tokens u) = Inr u"
proof -
  let ?tail = "case u_proto u of None \<Rightarrow> [] | Some p \<Rightarrow> [''proto'', proto_word p]"
  let ?to = "[''to'', addr_word (u_dst u)] @ port_words (u_dst_port u) @ ?tail"
  let ?from = "[''from'', addr_word (u_src u)] @ port_words (u_src_port u) @ ?to"
  let ?r0 = "(blank_rule (u_action u))\<lparr>u_direction := u_direction u\<rparr>"
  let ?r1 = "?r0\<lparr>u_iface := u_iface u\<rparr>"
  let ?r2 = "?r1\<lparr>u_src := u_src u, u_src_port := u_src_port u\<rparr>"
  let ?r3 = "?r2\<lparr>u_dst := u_dst u, u_dst_port := u_dst_port u\<rparr>"
  have tail: "parse_clauses ?r3 True True ?tail = Inr u"
    by (subst parse_proto_clause) (simp_all add: blank_rule_def)
  have "parse_clauses ?r2 True False ?to = parse_clauses ?r3 True True ?tail"
    using assms by (intro parse_to) (simp_all add: blank_rule_def spellable_def split: option.split)
  moreover have "parse_clauses ?r1 False False ?from = parse_clauses ?r2 True False ?to"
    using assms by (intro parse_from) (simp_all add: blank_rule_def spellable_def)
  moreover have "parse_clauses ?r0 False False ((case u_iface u of None \<Rightarrow> [] | Some i \<Rightarrow> [''on'', i]) @ ?from) =
      parse_clauses ?r1 False False ?from"
    using assms by (cases "u_iface u") (simp_all add: blank_rule_def spellable_def parse_on)
  moreover have "parse_directions (blank_rule (u_action u)) False (spec_tokens u) =
      Inr (?r0, (case u_iface u of None \<Rightarrow> [] | Some i \<Rightarrow> [''on'', i]) @ ?from)"
    unfolding spec_tokens_def append_Cons append_Nil
    by (rule parse_directions_spec) (simp split: option.split)
  ultimately show ?thesis using tail by (simp only: parse_full_grammar_def rbind_simps prod.case)
qed

lemma apps_list_loop_stems:
  "apps_list_loop es acc = Inr names \<Longrightarrow>
   set names = set acc \<union> {stem. \<exists>f. Inr f \<in> set es \<and> split_file_name f = (Some stem, Some ''toml'')}"
proof (induction es arbitrary: acc)
  case (Cons e es)
  then obtain f where e: "e = Inr f" by (auto simp: rbind_def split: sum.splits)
  obtain st x where f: "split_file_name f = (st, x)" by fastforce
  have st: "st \<noteq> None" using f by (auto simp: split_file_name_def split: if_splits option.splits)
  from Cons.prems have run: "apps_list_loop es (if x \<noteq> Some ''toml'' then acc else acc @ [the st]) = Inr names"
    using st by (auto simp: e f split: if_splits)
  from Cons.IH [OF run] st show ?case by (auto simp: e f)
qed simp

section \<open>Properties\<close>

text \<open>The environment of the examples: one profile, \<open>web\<close>, with the ports 80 and 443.\<close>

definition sample_apps :: app_env where
  "sample_apps =
     \<lparr>app_exists = (\<lambda>path. path = profile_path ''web''), app_read = (\<lambda>_. Inr ''web''),
      app_toml = (\<lambda>_. Inr (''web'', ''80, 443,'', Some ''tcp'')), app_dir = (\<lambda>_. Inr [])\<rparr>"

text \<open>
  Property C31. What the rule parser hands to the daemon is well formed, whatever the command
  line and the application profiles contain: a successful parse yields at least one rule,
  every rule carries the action of the command, and an interface name in it is one the
  kernel could have.
\<close>

theorem parsed_rules_are_well_formed:
  assumes "parse_rule_spec E action toks = Inr us"
  shows "us \<noteq> [] \<and> (\<forall>u \<in> set us. u_action u = action \<and> (\<forall>i. u_iface u = Some i \<longrightarrow> valid_iface_name i))"
  using parse_rule_spec_ok [OF assms] by (auto simp: list_all_iff spec_ok_def)

theorem parsed_rules_are_well_formed_witness:
  "\<exists>u. parse_rule_spec sample_apps Deny [''out'', ''on'', ''eth0'', ''port'', ''53''] = Inr [u] \<and>
       u_action u = Deny \<and> u_iface u = Some ''eth0'' \<and> valid_iface_name ''eth0''"
proof -
  obtain u where u: "parse_rule_spec sample_apps Deny [''out'', ''on'', ''eth0'', ''port'', ''53''] = Inr [u]"
    and "u_iface u = Some ''eth0''"
    by (simp add: parse_rule_spec_def parse_full_grammar_def parse_clauses.simps(2) validate_iface_def
        valid_iface_name_def set_dst_port_def blank_rule_def)
  with parsed_rules_are_well_formed [OF u] show ?thesis by auto
qed

text \<open>
  Property C30. The grammar is complete: for every rule whose interface name is valid (and whose
  networks are not the keyword \<open>any\<close>) there is a command line, direction first and then the
  clauses, from which the parser returns exactly that rule.
\<close>

theorem every_rule_has_a_spelling:
  assumes "spellable u"
  shows "parse_rule_spec E (u_action u) (spec_tokens u) = Inr [u]"
proof -
  have "2 \<le> length (spec_tokens u)" by (simp add: spec_tokens_def)
  then have "spec_tokens u \<noteq> []" "length (spec_tokens u) \<noteq> 1" by auto
  then show ?thesis by (simp add: parse_rule_spec_def parse_full_spec_tokens [OF assms])
qed

theorem every_rule_has_a_spelling_witness:
  "parse_rule_spec sample_apps Allow [''in'', ''from'', ''10.0.0.0/8'', ''port'', ''1024-65535'', ''to'', ''any'', ''port'', ''22'', ''proto'', ''tcp''] =
   Inr [\<lparr>u_direction = In, u_action = Allow, u_iface = None, u_proto = Some Tcp, u_src = Some ''10.0.0.0/8'', u_dst = None,
        u_src_port = Some ''1024-65535'', u_dst_port = Some ''22''\<rparr>]"
  using every_rule_has_a_spelling [of "\<lparr>u_direction = In, u_action = Allow, u_iface = None, u_proto = Some Tcp,
     u_src = Some ''10.0.0.0/8'', u_dst = None, u_src_port = Some ''1024-65535'', u_dst_port = Some ''22''\<rparr>" sample_apps]
  by (simp add: spellable_def spec_tokens_def dir_word_def addr_word_def port_words_def)

end
