(* ===== verification/Cli.thy ===== *)
theory Cli
  imports Control_Socket Rule_Parser
begin

text \<open>
  The command line (\<open>main\<close>, \<open>status\<close>, \<open>list\<close>, \<open>add\<close>, \<open>ping\<close>, \<open>simple_ok\<close>, \<open>render_rule\<close>,
  \<open>src/crates/moatd/src/bin/moatd.rs\<close>): each command is a function of the remote call; what
  it prints is a list of lines. \<open>systemctl\<close> and the daemon that \<open>moatd daemon\<close> runs are
  parameters.
\<close>

section \<open>Rendering\<close>

fun action_word :: "action \<Rightarrow> string" where
  "action_word Allow = ''allow''"
| "action_word Deny = ''deny''"
| "action_word Reject = ''reject''"

fun action_debug :: "action \<Rightarrow> string" where
  "action_debug Allow = ''Allow''"
| "action_debug Deny = ''Deny''"
| "action_debug Reject = ''Reject''"

text \<open>The vector \<open>parts\<close> and its join; \<open>dir_word\<close> and \<open>proto_word\<close> are the lower-case debug names.\<close>

definition render_parts :: "user_rule \<Rightarrow> string list" where
  "render_parts r =
     [action_word (u_action r) @ '' '' @ dir_word (u_direction r)] @
     (case u_iface r of Some iface \<Rightarrow> [''on '' @ iface] | None \<Rightarrow> []) @
     (case u_src r of Some src \<Rightarrow> [''from '' @ src] | None \<Rightarrow> []) @
     (case u_src_port r of Some sp \<Rightarrow> [''src port '' @ sp] | None \<Rightarrow> []) @
     (case u_dst r of Some dst \<Rightarrow> [''to '' @ dst] | None \<Rightarrow> []) @
     (case u_dst_port r of Some dp \<Rightarrow> [''port '' @ dp] | None \<Rightarrow> []) @
     (case u_proto r of Some proto \<Rightarrow> [''proto '' @ proto_word proto] | None \<Rightarrow> [])"

definition render_rule :: "user_rule \<Rightarrow> string" where
  "render_rule r = join_with '' '' (render_parts r)"

section \<open>Commands\<close>

type_synonym 's rpc = "request \<Rightarrow> 's \<Rightarrow> (err, response) result \<times> 's"
type_synonym 's command = "'s \<Rightarrow> (err, string list) result \<times> 's"

definition simple_ok :: "response \<Rightarrow> string \<Rightarrow> (err, string list) result" where
  "simple_ok resp msg =
     (case resp of
        Resp_Ok \<Rightarrow> Inr [msg]
      | Resp_Err e \<Rightarrow> Inl (Daemon_error e)
      | _ \<Rightarrow> Inl Unexpected_response)"

definition call_simple :: "'s rpc \<Rightarrow> request \<Rightarrow> string \<Rightarrow> 's command" where
  "call_simple rpc req msg s = (case rpc req s of (r, s') \<Rightarrow> (rbind r (\<lambda>resp. simple_ok resp msg), s'))"

definition status_lines :: "status_report \<Rightarrow> string list" where
  "status_lines s =
     [''Status:      '' @ (if s_active s then ''active'' else ''inactive''),
      ''Schema:      v'' @ dec_string (unat (s_schema_version s)),
      ''Default in:  '' @ action_debug (s_default_in s),
      ''Default out: '' @ action_debug (s_default_out s),
      ''Logging:     '' @ (if s_logging_enabled s then ''on'' else ''off''),
      ''Rules:       '' @ dec_string (unat (s_rules s))] @
     (if s_attached_interfaces s = [] then [''Interfaces:  (none)'']
      else ''Interfaces:'' # map (\<lambda>i. ''  '' @ i) (s_attached_interfaces s))"

definition status :: "'s rpc \<Rightarrow> 's command" where
  "status rpc s =
     (case rpc Req_Status s of (r, s') \<Rightarrow>
        (rbind r (\<lambda>resp. case resp of
             Resp_Status st \<Rightarrow> Inr (status_lines st)
           | Resp_Err e \<Rightarrow> Inl (Daemon_error e)
           | _ \<Rightarrow> Inl Unexpected_response), s'))"

definition list_lines :: "user_rule list \<Rightarrow> string list" where
  "list_lines rs =
     (if rs = [] then [''(no rules)'']
      else map (\<lambda>(i, r). ''['' @ dec_string (i + 1) @ ''] '' @ render_rule r) (List.enumerate 0 rs))"

definition list_rules :: "'s rpc \<Rightarrow> 's command" where
  "list_rules rpc s =
     (case rpc Req_ListRules s of (r, s') \<Rightarrow>
        (rbind r (\<lambda>resp. case resp of
             Resp_Rules rs \<Rightarrow> Inr (list_lines rs)
           | Resp_Err e \<Rightarrow> Inl (Daemon_error e)
           | _ \<Rightarrow> Inl Unexpected_response), s'))"

definition ping :: "'s rpc \<Rightarrow> 's command" where
  "ping rpc s =
     (case rpc Req_Ping s of (r, s') \<Rightarrow>
        (rbind r (\<lambda>resp. case resp of Resp_Pong \<Rightarrow> Inr [''pong''] | _ \<Rightarrow> Inl Unexpected_response), s'))"

fun add_loop :: "'s rpc \<Rightarrow> user_rule list \<Rightarrow> 's \<Rightarrow> (err, unit) result \<times> 's" where
  "add_loop rpc [] s = (Inr (), s)"
| "add_loop rpc (rule # rules) s =
     (case rpc (Req_AddRule rule) s of
        (Inl e, s') \<Rightarrow> (Inl e, s')
      | (Inr resp, s') \<Rightarrow>
          (case resp of
             Resp_Ok \<Rightarrow> add_loop rpc rules s'
           | Resp_Err e \<Rightarrow> (Inl (Daemon_error e), s')
           | _ \<Rightarrow> (Inl Unexpected_response, s')))"

definition add :: "app_env \<Rightarrow> 's rpc \<Rightarrow> action \<Rightarrow> string list \<Rightarrow> 's command" where
  "add A rpc action spec s =
     (case parse_rule_spec A action spec of
        Inl e \<Rightarrow> (Inl e, s)
      | Inr rules \<Rightarrow>
          if rules = [] then (Inl (Cli_usage ''no rules produced from spec''), s)
          else (case add_loop rpc rules s of
                  (Inl e, s') \<Rightarrow> (Inl e, s')
                | (Inr _, s') \<Rightarrow>
                    (Inr [if length rules = 1 then ''rule added''
                          else dec_string (length rules) @ '' rules added (app profile)''], s')))"

text \<open>\<open>systemctl\<close>: the error of starting it, or whether it exited with success.\<close>

definition run_systemctl :: "(string list \<Rightarrow> (err, bool) result) \<Rightarrow> string list \<Rightarrow> (err, unit) result" where
  "run_systemctl Y args =
     rbind (Y args) (\<lambda>success.
       if \<not> success then Inl (Io_error (''systemctl '' @ join_with '' '' args @ '' failed'')) else Inr ())"

definition enable :: "(string list \<Rightarrow> (err, bool) result) \<Rightarrow> 's command" where
  "enable Y s = (rbind (run_systemctl Y [''enable'', ''--now'', ''moatd'']) (\<lambda>_. Inr [''moatd enabled'']), s)"

definition disable :: "(string list \<Rightarrow> (err, bool) result) \<Rightarrow> 's command" where
  "disable Y s = (rbind (run_systemctl Y [''disable'', ''--now'', ''moatd'']) (\<lambda>_. Inr [''moatd disabled'']), s)"

datatype cmd =
    Cmd_Daemon
  | Cmd_Enable
  | Cmd_Disable
  | Cmd_Status
  | Cmd_List
  | Cmd_Allow "string list"
  | Cmd_Deny "string list"
  | Cmd_Reject "string list"
  | Cmd_Default "string list"
  | Cmd_Delete u32
  | Cmd_Reset
  | Cmd_Logging string
  | Cmd_Ping

text \<open>The programs a command can start besides the remote calls.\<close>

record 's cli_env =
  apps :: app_env
  systemctl :: "string list \<Rightarrow> (err, bool) result"
  block_on_daemon :: "'s command"

fun main :: "'s cli_env \<Rightarrow> 's rpc \<Rightarrow> cmd \<Rightarrow> 's command" where
  "main C rpc Cmd_Daemon s = block_on_daemon C s"
| "main C rpc Cmd_Enable s = enable (systemctl C) s"
| "main C rpc Cmd_Disable s = disable (systemctl C) s"
| "main C rpc Cmd_Status s = status rpc s"
| "main C rpc Cmd_List s = list_rules rpc s"
| "main C rpc (Cmd_Allow spec) s = add (apps C) rpc Allow spec s"
| "main C rpc (Cmd_Deny spec) s = add (apps C) rpc Deny spec s"
| "main C rpc (Cmd_Reject spec) s = add (apps C) rpc Reject spec s"
| "main C rpc (Cmd_Default args) s =
     (case parse_default_args args of
        Inl e \<Rightarrow> (Inl e, s)
      | Inr (direction, action) \<Rightarrow> call_simple rpc (Req_SetDefault direction action) ''default updated'' s)"
| "main C rpc (Cmd_Delete index) s = call_simple rpc (Req_DeleteRule index) ''rule deleted'' s"
| "main C rpc Cmd_Reset s = call_simple rpc Req_Reset ''firewall reset'' s"
| "main C rpc (Cmd_Logging v) s =
     (if v = ''on'' \<or> v = ''true'' \<or> v = ''yes'' then call_simple rpc (Req_SetLogging True) ''logging updated'' s
      else if v = ''off'' \<or> v = ''false'' \<or> v = ''no'' then call_simple rpc (Req_SetLogging False) ''logging updated'' s
      else (Inl (Cli_usage ''logging value must be on/off''), s))"
| "main C rpc Cmd_Ping s = ping rpc s"

section \<open>Listed rules as command lines\<close>

text \<open>The words of a listed rule.\<close>

definition render_tokens :: "user_rule \<Rightarrow> string list" where
  "render_tokens r =
     [action_word (u_action r), dir_word (u_direction r)] @
     (case u_iface r of Some iface \<Rightarrow> [''on'', iface] | None \<Rightarrow> []) @
     (case u_src r of Some src \<Rightarrow> [''from'', src] | None \<Rightarrow> []) @
     (case u_src_port r of Some sp \<Rightarrow> [''src'', ''port'', sp] | None \<Rightarrow> []) @
     (case u_dst r of Some dst \<Rightarrow> [''to'', dst] | None \<Rightarrow> []) @
     (case u_dst_port r of Some dp \<Rightarrow> [''port'', dp] | None \<Rightarrow> []) @
     (case u_proto r of Some proto \<Rightarrow> [''proto'', proto_word proto] | None \<Rightarrow> [])"

lemma join_with_Cons: "join_with sep (x # xs) = x @ (if xs = [] then [] else sep @ join_with sep xs)"
  by (cases xs) simp_all

lemma render_rule_tokens: "render_rule r = join_with '' '' (render_tokens r)"
  by (cases "u_iface r"; cases "u_src r"; cases "u_src_port r"; cases "u_dst r"; cases "u_dst_port r"; cases "u_proto r")
    (simp_all add: render_rule_def render_parts_def render_tokens_def)

lemma split_on_append_sep: "c \<notin> set t \<Longrightarrow> split_on c (t @ c # s) = t # split_on c s"
  by (induction t) auto

lemma split_on_no_occurrence: "c \<notin> set t \<Longrightarrow> split_on c t = [t]"
  by (induction t) auto

lemma split_join: "ts \<noteq> [] \<Longrightarrow> list_all (\<lambda>t. c \<notin> set t) ts \<Longrightarrow> split_on c (join_with [c] ts) = ts"
proof (induction ts)
  case (Cons t ts)
  then show ?case by (cases ts) (simp_all add: split_on_append_sep split_on_no_occurrence)
qed simp

definition no_space :: "string option \<Rightarrow> bool" where
  "no_space x = (case x of None \<Rightarrow> True | Some s \<Rightarrow> CHR '' '' \<notin> set s)"

definition printable :: "user_rule \<Rightarrow> bool" where
  "printable r \<longleftrightarrow> spellable r \<and> no_space (u_src r) \<and> no_space (u_dst r) \<and> no_space (u_src_port r) \<and> no_space (u_dst_port r)"

lemma iface_no_space: "valid_iface_name i \<Longrightarrow> CHR '' '' \<notin> set i"
  by (auto simp: valid_iface_name_def list_ex_iff)

lemma words_no_space: "CHR '' '' \<notin> set (action_word a)" "CHR '' '' \<notin> set (dir_word d)" "CHR '' '' \<notin> set (proto_word p)"
proof -
  show "CHR '' '' \<notin> set (action_word a)" by (cases a) simp_all
  show "CHR '' '' \<notin> set (dir_word d)" by (cases d) (simp_all add: dir_word_def)
  show "CHR '' '' \<notin> set (proto_word p)" by (cases p) simp_all
qed

lemma split_render:
  assumes "printable r"
  shows "split_on CHR '' '' (render_rule r) = render_tokens r"
  unfolding render_rule_tokens
proof (rule split_join)
  show "render_tokens r \<noteq> []" by (simp add: render_tokens_def)
  show "list_all (\<lambda>t. CHR '' '' \<notin> set t) (render_tokens r)"
    using assms words_no_space
    by (auto simp: render_tokens_def printable_def spellable_def no_space_def iface_no_space split: option.splits)
qed

lemma parse_port: "u_dst_port r = None \<Longrightarrow>
    parse_clauses r f t (''port'' # p # toks) = parse_clauses (r\<lparr>u_dst_port := Some p\<rparr>) f t toks"
  by (subst parse_clauses.simps(2)) (simp add: set_dst_port_def)

text \<open>Which rules a listing spells in the grammar's own way.\<close>

definition faithful_listing :: "user_rule \<Rightarrow> bool" where
  "faithful_listing r \<longleftrightarrow> u_src_port r = None \<and> (u_src r = None \<or> u_dst r \<noteq> None \<or> u_dst_port r = None)"

lemma parse_render_tokens:
  assumes "spellable r" "faithful_listing r"
  shows "parse_full_grammar (u_action r) (tl (render_tokens r)) = Inr r"
proof -
  let ?tail = "case u_proto r of None \<Rightarrow> [] | Some p \<Rightarrow> [''proto'', proto_word p]"
  let ?port = "(case u_dst_port r of Some dp \<Rightarrow> [''port'', dp] | None \<Rightarrow> []) @ ?tail"
  let ?to = "(case u_dst r of Some dst \<Rightarrow> [''to'', dst] | None \<Rightarrow> []) @ ?port"
  let ?from = "(case u_src r of Some src \<Rightarrow> [''from'', src] | None \<Rightarrow> []) @ ?to"
  let ?r1 = "(blank_rule (u_action r))\<lparr>u_direction := u_direction r, u_iface := u_iface r\<rparr>"
  let ?r2 = "?r1\<lparr>u_src := u_src r\<rparr>" and ?r3 = "?r1\<lparr>u_src := u_src r, u_dst := u_dst r, u_dst_port := u_dst_port r\<rparr>"
  have tail: "parse_clauses ?r3 f t ?tail = Inr r" for f t
    using assms(2) parse_proto_clause [of ?r3 f t "u_proto r"] by (simp add: blank_rule_def faithful_listing_def)
  have tl: "?tail = [] \<or> hd ?tail \<noteq> ''port''" by (simp split: option.split)
  have to: "parse_clauses ?r2 f False ?to = Inr r" for f
  proof (cases "u_dst r")
    case None
    then show ?thesis
      using tail [of f False] parse_port [of ?r2 f False _ ?tail] by (cases "u_dst_port r") (simp_all add: blank_rule_def)
  next
    case (Some d)
    have "parse_clauses ?r2 f False ([''to'', addr_word (u_dst r)] @ port_words (u_dst_port r) @ ?tail) = parse_clauses ?r3 f True ?tail"
      using assms(1) tl parse_to [of ?r2 "u_dst r" ?tail f "u_dst_port r"] by (simp add: blank_rule_def spellable_def)
    with Some tail [of f True] show ?thesis by (simp add: addr_word_def port_words_def split: option.splits)
  qed
  have from_: "parse_clauses ?r1 False False ?from = Inr r"
  proof (cases "u_src r")
    case None
    have "?r1\<lparr>u_src := None\<rparr> = ?r1" by (simp add: blank_rule_def)
    with None to [of False] show ?thesis by simp
  next
    case (Some s)
    have "?to = [] \<or> hd ?to \<noteq> ''port''" using assms(2) Some by (auto simp: faithful_listing_def split: option.split)
    from parse_from [OF _ _ _ this, of ?r1 "Some s" False None] assms(1) Some to [of True] show ?thesis
      by (simp add: blank_rule_def spellable_def addr_word_def port_words_def)
  qed
  have "parse_directions (blank_rule (u_action r)) False (tl (render_tokens r)) =
      Inr ((blank_rule (u_action r))\<lparr>u_direction := u_direction r\<rparr>,
        (case u_iface r of Some iface \<Rightarrow> [''on'', iface] | None \<Rightarrow> []) @ ?from)"
    using assms(2) unfolding render_tokens_def append_Cons append_Nil list.sel
    by (subst parse_directions_spec) (simp_all add: faithful_listing_def split: option.split)
  moreover have "parse_clauses ((blank_rule (u_action r))\<lparr>u_direction := u_direction r\<rparr>) False False
      ((case u_iface r of Some iface \<Rightarrow> [''on'', iface] | None \<Rightarrow> []) @ ?from) = Inr r"
    using from_ assms(1) by (cases "u_iface r") (simp_all add: blank_rule_def spellable_def parse_on)
  ultimately show ?thesis by (simp only: parse_full_grammar_def rbind_simps prod.case)
qed

section \<open>Properties\<close>

text \<open>
  A listed rule can be entered again: for rules without a source port whose
  destination port is not printed right behind a source network, splitting the listed line
  at its spaces gives the rule's action and a command line that parses to that rule.
\<close>

theorem listed_rule_parses_back:
  assumes "printable r" and "faithful_listing r" and "2 < length (render_tokens r)"
  shows "hd (split_on CHR '' '' (render_rule r)) = action_word (u_action r) \<and>
    parse_rule_spec A (u_action r) (tl (split_on CHR '' '' (render_rule r))) = Inr [r]"
proof -
  have "parse_full_grammar (u_action r) (tl (render_tokens r)) = Inr r"
    using assms by (intro parse_render_tokens) (simp_all add: printable_def)
  moreover have "tl (render_tokens r) \<noteq> []" "length (tl (render_tokens r)) \<noteq> 1"
    using assms(3) by (auto simp flip: length_0_conv)
  ultimately show ?thesis
    unfolding split_render [OF assms(1)] by (simp add: parse_rule_spec_def) (simp add: render_tokens_def)
qed

theorem listed_rule_parses_back_witness:
  "parse_rule_spec sample_apps Allow (tl (split_on CHR '' '' (render_rule
     \<lparr>u_direction = In, u_action = Allow, u_iface = Some ''eth0'', u_proto = Some Tcp, u_src = None, u_dst = None,
      u_src_port = None, u_dst_port = Some ''22''\<rparr>))) =
   Inr [\<lparr>u_direction = In, u_action = Allow, u_iface = Some ''eth0'', u_proto = Some Tcp, u_src = None, u_dst = None,
      u_src_port = None, u_dst_port = Some ''22''\<rparr>]"
  using listed_rule_parses_back [of "\<lparr>u_direction = In, u_action = Allow, u_iface = Some ''eth0'', u_proto = Some Tcp,
      u_src = None, u_dst = None, u_src_port = None, u_dst_port = Some ''22''\<rparr>" sample_apps]
  by (simp add: printable_def spellable_def no_space_def faithful_listing_def render_tokens_def valid_iface_name_def)

text \<open>
  A rule with a source network and a destination port, but no destination network, is
  listed misleadingly: the listed line parses to a rule in which the port restricts the
  source instead of the destination.
\<close>

theorem listed_destination_port_reads_as_source_port:
  assumes "printable r" and "u_src r = Some s" and "u_src_port r = None" and "u_dst r = None" and "u_dst_port r = Some p"
  shows "parse_rule_spec A (u_action r) (tl (split_on CHR '' '' (render_rule r))) =
    Inr [r\<lparr>u_src_port := Some p, u_dst_port := None\<rparr>]"
proof -
  let ?tail = "case u_proto r of None \<Rightarrow> [] | Some p \<Rightarrow> [''proto'', proto_word p]"
  let ?r0 = "(blank_rule (u_action r))\<lparr>u_direction := u_direction r\<rparr>"
  let ?r1 = "?r0\<lparr>u_iface := u_iface r\<rparr>" and ?from = "[''from'', addr_word (Some s)] @ port_words (Some p) @ ?tail"
  have tl: "?tail = [] \<or> hd ?tail \<noteq> ''port''" by (simp split: option.split)
  have sp: "spellable r" using assms(1) by (simp add: printable_def)
  have toks: "tl (render_tokens r) = dir_word (u_direction r) # (case u_iface r of Some i \<Rightarrow> [''on'', i] | None \<Rightarrow> []) @ ?from"
    using assms(2-5) by (simp add: render_tokens_def addr_word_def port_words_def)
  have "parse_clauses ?r1 False False ?from = parse_clauses (?r1\<lparr>u_src := Some s, u_src_port := Some p\<rparr>) True False ?tail"
    using sp assms(2) by (intro parse_from tl) (simp_all add: blank_rule_def spellable_def)
  also have "\<dots> = Inr (r\<lparr>u_src_port := Some p, u_dst_port := None\<rparr>)"
    using assms(2-5) by (subst parse_proto_clause) (simp_all add: blank_rule_def)
  finally have "parse_clauses ?r0 False False ((case u_iface r of Some i \<Rightarrow> [''on'', i] | None \<Rightarrow> []) @ ?from) =
      Inr (r\<lparr>u_src_port := Some p, u_dst_port := None\<rparr>)"
    using sp by (cases "u_iface r") (simp_all add: blank_rule_def spellable_def parse_on)
  moreover have "parse_directions (blank_rule (u_action r)) False (tl (render_tokens r)) =
      Inr (?r0, (case u_iface r of Some i \<Rightarrow> [''on'', i] | None \<Rightarrow> []) @ ?from)"
    unfolding toks by (rule parse_directions_spec) (simp split: option.split)
  ultimately have "parse_full_grammar (u_action r) (tl (render_tokens r)) = Inr (r\<lparr>u_src_port := Some p, u_dst_port := None\<rparr>)"
    by (simp only: parse_full_grammar_def rbind_simps prod.case)
  moreover have "tl (render_tokens r) \<noteq> []" "length (tl (render_tokens r)) \<noteq> 1" by (simp_all add: toks)
  ultimately show ?thesis unfolding split_render [OF assms(1)] by (simp add: parse_rule_spec_def)
qed

theorem listed_destination_port_reads_as_source_port_witness:
  "parse_rule_spec sample_apps Deny (tl (split_on CHR '' '' (render_rule
     \<lparr>u_direction = In, u_action = Deny, u_iface = None, u_proto = None, u_src = Some ''10.0.0.0/8'', u_dst = None,
      u_src_port = None, u_dst_port = Some ''22''\<rparr>))) =
   Inr [\<lparr>u_direction = In, u_action = Deny, u_iface = None, u_proto = None, u_src = Some ''10.0.0.0/8'', u_dst = None,
      u_src_port = Some ''22'', u_dst_port = None\<rparr>]"
  using listed_destination_port_reads_as_source_port [of "\<lparr>u_direction = In, u_action = Deny, u_iface = None, u_proto = None,
      u_src = Some ''10.0.0.0/8'', u_dst = None, u_src_port = None, u_dst_port = Some ''22''\<rparr>" "''10.0.0.0/8''" "''22''" sample_apps]
  by (simp add: printable_def spellable_def no_space_def)

end
