(* ===== verification/Abi.thy ===== *)
theory Abi
  imports Moat_Common
begin

text \<open>
  The memory layout that user space and the eBPF programs agree on: the structs of
  \<open>src/crates/moatd-common/src/lib.rs\<close> are \<open>#[repr(C)]\<close> and derive \<open>bytemuck::Pod\<close>, so their
  values cross the BPF maps and the ring buffer as bytes. Here are the layout that
  \<open>repr(C)\<close> prescribes (fields in order, each at the next multiple of its alignment, the
  whole padded to its own alignment), the bytes of a value on the little-endian targets, and the
  two facts \<open>Pod\<close> stands for: a value reads back from its bytes, and, because no struct has
  padding, every byte string of the right length is a value.
\<close>

section \<open>Bytes of an integer\<close>

definition le_bytes :: "nat \<Rightarrow> 'a::len word \<Rightarrow> u8 list" where
  "le_bytes n w = map (\<lambda>i. ucast (drop_bit (8 * i) w)) [0..<n]"

lemma length_le_bytes [simp]: "length (le_bytes n w) = n"
  by (simp add: le_bytes_def)

lemma bit_le_word:
  assumes "8 * length bs \<le> LENGTH('a)"
  shows "bit (le_word bs :: 'a::len word) i \<longleftrightarrow> i < 8 * length bs \<and> bit (bs ! (i div 8)) (i mod 8)"
proof (cases "i < 8 * length bs")
  case True
  then have "i div 8 < length bs" by simp
  then have "rev bs ! (length bs - 1 - i div 8) = bs ! (i div 8)" by (simp add: rev_nth)
  then show ?thesis using assms by (simp add: le_word_def bit_be_word)
qed (simp add: le_word_def bit_be_word assms)

lemma le_word_bytes: "LENGTH('a::len) = 8 * n \<Longrightarrow> le_word (le_bytes n w) = (w :: 'a word)"
  by (rule bit_word_eqI) (simp add: bit_le_word, simp add: le_bytes_def bit_simps less_mult_imp_div_less mult.commute)

lemma le_bytes_word:
  assumes "length bs = n" "8 * n \<le> LENGTH('a::len)"
  shows "le_bytes n (le_word bs :: 'a word) = bs"
proof (rule nth_equalityI)
  fix i assume "i < length (le_bytes n (le_word bs :: 'a word))"
  then have i: "i < n" by simp
  show "le_bytes n (le_word bs :: 'a word) ! i = bs ! i"
  proof (rule bit_word_eqI)
    fix k assume "k < LENGTH(8)"
    then have k: "k < 8" by simp
    then have "(8 * i + k) div 8 = i" "(8 * i + k) mod 8 = k" "8 * i + k < 8 * n" using i by simp_all
    with assms i k show "bit (le_bytes n (le_word bs :: 'a word) ! i) k = bit (bs ! i) k"
      by (simp add: le_bytes_def bit_simps bit_le_word)
  qed
qed (simp add: assms)

section \<open>\<open>repr(C)\<close>\<close>

datatype cty = C8 | C16 | C32 | C64 | Arr nat cty | Struct "cty list"

definition align_up :: "nat \<Rightarrow> nat \<Rightarrow> nat" where
  "align_up off a = (off + a - 1) div a * a"

fun align_of :: "cty \<Rightarrow> nat" where
  "align_of C8 = 1"
| "align_of C16 = 2"
| "align_of C32 = 4"
| "align_of C64 = 8"
| "align_of (Arr n t) = align_of t"
| "align_of (Struct ts) = foldr (\<lambda>t a. max (align_of t) a) ts 1"

fun size_of :: "cty \<Rightarrow> nat" and end_of :: "nat \<Rightarrow> cty list \<Rightarrow> nat" where
  "size_of C8 = 1"
| "size_of C16 = 2"
| "size_of C32 = 4"
| "size_of C64 = 8"
| "size_of (Arr n t) = n * size_of t"
| "size_of (Struct ts) = align_up (end_of 0 ts) (align_of (Struct ts))"
| "end_of off [] = off"
| "end_of off (t # ts) = end_of (align_up off (align_of t) + size_of t) ts"

text \<open>No padding byte anywhere.\<close>

fun packed :: "cty \<Rightarrow> bool" and packed_fields :: "nat \<Rightarrow> cty list \<Rightarrow> bool" where
  "packed C8 = True"
| "packed C16 = True"
| "packed C32 = True"
| "packed C64 = True"
| "packed (Arr n t) = packed t"
| "packed (Struct ts) = (packed_fields 0 ts \<and> size_of (Struct ts) = end_of 0 ts)"
| "packed_fields off [] = True"
| "packed_fields off (t # ts) =
     (packed t \<and> align_up off (align_of t) = off \<and> packed_fields (off + size_of t) ts)"

section \<open>Values and their bytes\<close>

datatype cval = V8 u8 | V16 u16 | V32 u32 | V64 u64 | Vs "cval list"

fun typed :: "cty \<Rightarrow> cval \<Rightarrow> bool" and typed_fields :: "cty list \<Rightarrow> cval list \<Rightarrow> bool" where
  "typed C8 (V8 _) = True"
| "typed C16 (V16 _) = True"
| "typed C32 (V32 _) = True"
| "typed C64 (V64 _) = True"
| "typed (Arr n t) (Vs vs) = (length vs = n \<and> list_all (typed t) vs)"
| "typed (Struct ts) (Vs vs) = typed_fields ts vs"
| "typed _ _ = False"
| "typed_fields [] [] = True"
| "typed_fields (t # ts) (v # vs) = (typed t v \<and> typed_fields ts vs)"
| "typed_fields _ _ = False"

text \<open>\<open>bytemuck::bytes_of\<close>; padding, where there is any, is zero.\<close>

fun bytes_of :: "cty \<Rightarrow> cval \<Rightarrow> u8 list" and bytes_of_fields :: "nat \<Rightarrow> cty list \<Rightarrow> cval list \<Rightarrow> u8 list" where
  "bytes_of C8 (V8 w) = [w]"
| "bytes_of C16 (V16 w) = le_bytes 2 w"
| "bytes_of C32 (V32 w) = le_bytes 4 w"
| "bytes_of C64 (V64 w) = le_bytes 8 w"
| "bytes_of (Arr n t) (Vs vs) = concat (map (bytes_of t) vs)"
| "bytes_of (Struct ts) (Vs vs) =
     bytes_of_fields 0 ts vs @ replicate (size_of (Struct ts) - end_of 0 ts) 0"
| "bytes_of _ _ = []"
| "bytes_of_fields off (t # ts) (v # vs) =
     replicate (align_up off (align_of t) - off) 0 @ bytes_of t v @
     bytes_of_fields (align_up off (align_of t) + size_of t) ts vs"
| "bytes_of_fields off _ _ = []"

text \<open>\<open>bytemuck::pod_read_unaligned\<close> on bytes of the right length.\<close>

fun pod_read :: "cty \<Rightarrow> u8 list \<Rightarrow> cval" and pod_read_fields :: "nat \<Rightarrow> cty list \<Rightarrow> u8 list \<Rightarrow> cval list" where
  "pod_read C8 bs = V8 (hd bs)"
| "pod_read C16 bs = V16 (le_word bs)"
| "pod_read C32 bs = V32 (le_word bs)"
| "pod_read C64 bs = V64 (le_word bs)"
| "pod_read (Arr n t) bs = Vs (map (\<lambda>i. pod_read t (take (size_of t) (drop (i * size_of t) bs))) [0..<n])"
| "pod_read (Struct ts) bs = Vs (pod_read_fields 0 ts bs)"
| "pod_read_fields off [] bs = []"
| "pod_read_fields off (t # ts) bs =
     (let start = align_up off (align_of t)
      in pod_read t (take (size_of t) (drop start bs)) # pod_read_fields (start + size_of t) ts bs)"

section \<open>A value reads back\<close>

lemma align_of_pos: "0 < align_of t"
proof (induction t)
  case (Struct ts)
  have "0 < foldr (\<lambda>t a. max (align_of t) a) xs 1" for xs by (induction xs) (simp_all add: less_max_iff_disj)
  then show ?case by simp
qed simp_all

lemma align_up_ge: "0 < a \<Longrightarrow> off \<le> align_up off a"
proof -
  assume "0 < a"
  have "off + a - 1 = (off + a - 1) div a * a + (off + a - 1) mod a" by simp
  moreover have "(off + a - 1) mod a < a" using \<open>0 < a\<close> by simp
  ultimately show ?thesis unfolding align_up_def by linarith
qed

lemma align_up_of_ge [simp]: "off \<le> align_up off (align_of t)"
  by (rule align_up_ge) (rule align_of_pos)

lemma end_of_ge: "off \<le> end_of off ts"
proof (induction ts arbitrary: off)
  case (Cons t ts)
  have "off \<le> align_up off (align_of t) + size_of t" by (simp add: trans_le_add1)
  also have "\<dots> \<le> end_of \<dots> ts" by (rule Cons.IH)
  finally show ?case by simp
qed simp

lemma length_concat_map: "list_all (\<lambda>x. length (f x) = k) xs \<Longrightarrow> length (concat (map f xs)) = length xs * k"
  by (induction xs) simp_all

lemma typed_cases:
  "typed C8 v \<longleftrightarrow> (\<exists>w. v = V8 w)" "typed C16 v \<longleftrightarrow> (\<exists>w. v = V16 w)" "typed C32 v \<longleftrightarrow> (\<exists>w. v = V32 w)"
  "typed C64 v \<longleftrightarrow> (\<exists>w. v = V64 w)"
  "typed (Arr n t) v \<longleftrightarrow> (\<exists>vs. v = Vs vs \<and> length vs = n \<and> list_all (typed t) vs)"
  "typed (Struct ts) v \<longleftrightarrow> (\<exists>vs. v = Vs vs \<and> typed_fields ts vs)"
  by (cases v; simp)+

lemma typed_fields_cases:
  "typed_fields [] vs \<longleftrightarrow> vs = []"
  "typed_fields (t # ts) vs \<longleftrightarrow> (\<exists>v vs'. vs = v # vs' \<and> typed t v \<and> typed_fields ts vs')"
  by (cases vs; simp)+

lemma end_le_size: "end_of 0 ts \<le> size_of (Struct ts)"
  using align_up_of_ge [of "end_of 0 ts" "Struct ts"] by (simp only: size_of.simps)

lemma length_bytes_of:
  "typed t v \<Longrightarrow> length (bytes_of t v) = size_of t"
  "typed_fields ts vs \<Longrightarrow> off + length (bytes_of_fields off ts vs) = end_of off ts"
proof (induction t and off ts arbitrary: v and vs rule: size_of_end_of.induct)
  case (5 n t)
  then show ?case by (auto simp: typed_cases list_all_iff intro!: length_concat_map)
next
  case (6 ts)
  then show ?case using end_le_size [of ts] by (auto simp: typed_cases simp del: size_of.simps)
next
  case (8 off t ts)
  then obtain v vs' where vs: "vs = v # vs'" "typed t v" "typed_fields ts vs'" by (auto simp: typed_fields_cases)
  from 8(1) [OF vs(2)] 8(2) [OF vs(3)] show ?case by (simp add: vs(1) trans_le_add1)
qed (auto simp: typed_cases typed_fields_cases)

lemma nth_chunk:
  assumes "list_all (\<lambda>x. length (f x) = k) xs" "i < length xs"
  shows "take k (drop (i * k) (concat (map f xs))) = f (xs ! i)"
  using assms
proof (induction xs arbitrary: i)
  case (Cons x xs)
  then show ?case by (cases i) (simp_all add: add.commute)
qed simp

lemma pod_read_bytes_of:
  "typed t v \<Longrightarrow> pod_read t (bytes_of t v) = v"
  "typed_fields ts vs \<Longrightarrow> length before = off \<Longrightarrow> pod_read_fields off ts (before @ bytes_of_fields off ts vs @ after) = vs"
proof (induction t and off ts arbitrary: v and vs before after rule: size_of_end_of.induct)
  case (5 n t)
  then obtain vs where vs: "v = Vs vs" "length vs = n" "list_all (typed t) vs" by (auto simp: typed_cases)
  then have "list_all (\<lambda>x. length (bytes_of t x) = size_of t) vs" by (auto simp: list_all_iff length_bytes_of)
  then have "map (\<lambda>i. pod_read t (take (size_of t) (drop (i * size_of t) (concat (map (bytes_of t) vs))))) [0..<n] =
      map (\<lambda>i. vs ! i) [0..<n]"
    using 5 vs by (intro map_cong) (auto simp: nth_chunk list_all_length)
  also have "\<dots> = vs" using map_nth [of vs] by (simp add: vs(2))
  finally show ?case by (simp add: vs(1))
next
  case (6 ts)
  then obtain vs where vs: "v = Vs vs" "typed_fields ts vs" by (auto simp: typed_cases)
  from 6(1) [OF vs(2), of "[]"] show ?case by (simp add: vs(1) del: size_of.simps)
next
  case (8 off t ts)
  then obtain v vs' where vs: "vs = v # vs'" "typed t v" "typed_fields ts vs'" by (auto simp: typed_fields_cases)
  let ?start = "align_up off (align_of t)"
  let ?b = "before @ replicate (?start - off) 0 @ bytes_of t v"
  have len: "length (before @ replicate (?start - off) 0) = ?start" "length (bytes_of t v) = size_of t"
    using 8(4) vs(2) by (simp_all add: length_bytes_of)
  then have "length ?b = ?start + size_of t" by (simp only: length_append)
  from 8(2) [OF vs(3) this]
  have "pod_read_fields (?start + size_of t) ts (?b @ bytes_of_fields (?start + size_of t) ts vs' @ after) = vs'" .
  moreover have "take (size_of t) (drop ?start (before @ bytes_of_fields off (t # ts) vs @ after)) = bytes_of t v"
  proof -
    have "length before \<le> ?start" using 8(4) by simp
    then show ?thesis using len by (simp add: vs(1))
  qed
  ultimately show ?case using 8(1) [OF vs(2)] by (simp add: vs(1) Let_def)
qed (auto simp: typed_cases typed_fields_cases le_word_bytes)

section \<open>Without padding, bytes are values\<close>

lemma bytes_of_pod_read:
  "packed t \<Longrightarrow> length bs = size_of t \<Longrightarrow> typed t (pod_read t bs) \<and> bytes_of t (pod_read t bs) = bs"
  "packed_fields off ts \<Longrightarrow> end_of off ts \<le> length bs \<Longrightarrow>
     typed_fields ts (pod_read_fields off ts bs) \<and>
     bytes_of_fields off ts (pod_read_fields off ts bs) = take (end_of off ts - off) (drop off bs)"
proof (induction t and off ts arbitrary: bs and bs rule: size_of_end_of.induct)
  case (5 n t)
  let ?chunk = "\<lambda>i. take (size_of t) (drop (i * size_of t) bs)"
  have chunk: "length (?chunk i) = size_of t" if "i < n" for i
  proof -
    have "(i + 1) * size_of t \<le> n * size_of t" using that by (intro mult_le_mono1) simp
    then show ?thesis using 5(3) by simp
  qed
  have "concat (map ?chunk [0..<k]) = take (k * size_of t) bs" for k
    by (induction k) (simp_all add: take_add add.commute [of _ "k * size_of t"] add.commute [of "size_of t"])
  from this [of n] have all: "concat (map ?chunk [0..<n]) = bs" using 5(3) by simp
  have "map (\<lambda>i. bytes_of t (pod_read t (?chunk i))) [0..<n] = map ?chunk [0..<n]"
    using 5(1,2) chunk by (intro map_cong) auto
  then have "concat (map (\<lambda>i. bytes_of t (pod_read t (?chunk i))) [0..<n]) = bs" by (simp only: all)
  then show ?case using 5 chunk by (simp add: list_all_iff comp_def)
next
  case (6 ts)
  then show ?case using 6(1) [of bs] by simp
next
  case (8 off t ts)
  obtain k where k: "end_of (off + size_of t) ts = off + size_of t + k"
    using end_of_ge [of "off + size_of t" ts] by (auto simp: le_iff_add)
  have "take (size_of t + k) (drop off bs) = take (size_of t) (drop off bs) @ take k (drop (off + size_of t) bs)"
    by (simp add: take_add add.commute [of off])
  then show ?case using 8(1) [of "take (size_of t) (drop off bs)"] 8(2) [of bs] 8(3,4) by (simp add: Let_def k)
next
  case (1)
  then show ?case by (cases bs) auto
qed (simp_all add: le_bytes_word)

section \<open>The structs of moatd-common\<close>

definition IpCidr_layout :: cty where
  "IpCidr_layout = Struct [C8, C8, Arr 2 C8, Arr 16 C8]"

definition Rule_layout :: cty where
  "Rule_layout = Struct [C8, C8, C8, C8, C32, IpCidr_layout, IpCidr_layout, C16, C16, C16, C16, C8, Arr 3 C8]"

definition DropEvent_layout :: cty where
  "DropEvent_layout = Struct [C64, C32, C32, Arr 16 C8, Arr 16 C8, C16, C16, C8, C8, C8, C8]"

definition GlobalConfig_layout :: cty where
  "GlobalConfig_layout = Struct [C8, C8, C8, C8, C16, C16]"

definition ConnKey_layout :: cty where
  "ConnKey_layout = Struct [C8, C8, Arr 2 C8, Arr 16 C8, Arr 16 C8, C16, C16]"

definition ConnVal_layout :: cty where
  "ConnVal_layout = Struct [C64]"

definition LogTokens_layout :: cty where
  "LogTokens_layout = Struct [C32, Arr 4 C8, C64]"

lemmas layouts = IpCidr_layout_def Rule_layout_def DropEvent_layout_def GlobalConfig_layout_def
  ConnKey_layout_def ConnVal_layout_def LogTokens_layout_def

definition byte_array :: "u8 list \<Rightarrow> cval" where
  "byte_array bs = Vs (map V8 bs)"

fun array_bytes :: "cval \<Rightarrow> u8 list" where
  "array_bytes (Vs vs) = map (\<lambda>v. case v of V8 b \<Rightarrow> b | _ \<Rightarrow> 0) vs"
| "array_bytes _ = []"

lemma array_bytes_byte_array [simp]: "array_bytes (byte_array bs) = bs"
  by (simp add: byte_array_def comp_def)

lemma typed_byte_array [simp]: "typed (Arr n C8) (byte_array bs) \<longleftrightarrow> length bs = n"
  by (auto simp: byte_array_def list_all_iff)

lemma byte_array_array_bytes: "typed (Arr n C8) v \<Longrightarrow> byte_array (array_bytes v) = v \<and> length (array_bytes v) = n"
  by (force simp: typed_cases byte_array_def list_all_iff intro!: map_idI)

definition field_of :: "cval \<Rightarrow> nat \<Rightarrow> cval" where
  "field_of v i = (case v of Vs vs \<Rightarrow> vs ! i | _ \<Rightarrow> v)"

fun as8 :: "cval \<Rightarrow> u8" where "as8 (V8 w) = w" | "as8 _ = 0"
fun as16 :: "cval \<Rightarrow> u16" where "as16 (V16 w) = w" | "as16 _ = 0"
fun as32 :: "cval \<Rightarrow> u32" where "as32 (V32 w) = w" | "as32 _ = 0"
fun as64 :: "cval \<Rightarrow> u64" where "as64 (V64 w) = w" | "as64 _ = 0"

text \<open>A struct crosses as the bytes of its layout; \<open>from_bytes\<close> is the reader's check of the length
  followed by \<open>pod_read_unaligned\<close>.\<close>

definition as_bytes :: "cty \<Rightarrow> ('a \<Rightarrow> cval) \<Rightarrow> 'a \<Rightarrow> u8 list" where
  "as_bytes layout to_val x = bytes_of layout (to_val x)"

definition from_bytes :: "cty \<Rightarrow> (cval \<Rightarrow> 'a) \<Rightarrow> u8 list \<Rightarrow> 'a option" where
  "from_bytes layout of_val bs = (if length bs \<noteq> size_of layout then None else Some (of_val (pod_read layout bs)))"

text \<open>What \<open>unsafe impl Pod\<close> claims of a struct: its fields are exactly its layout, without padding.\<close>

locale pod =
  fixes layout :: cty
    and to_val :: "'a \<Rightarrow> cval"
    and of_val :: "cval \<Rightarrow> 'a"
    and valid :: "'a \<Rightarrow> bool"
  assumes packed_layout: "packed layout"
    and typed_to_val: "typed layout (to_val x) \<longleftrightarrow> valid x"
    and of_val_to_val: "of_val (to_val x) = x"
    and to_val_of_val: "typed layout v \<Longrightarrow> to_val (of_val v) = v"
begin

lemma length_as_bytes: "valid x \<Longrightarrow> length (as_bytes layout to_val x) = size_of layout"
  by (simp add: as_bytes_def length_bytes_of typed_to_val)

lemma reads_back: "valid x \<Longrightarrow> from_bytes layout of_val (as_bytes layout to_val x) = Some x"
  using length_as_bytes [of x]
  by (simp add: from_bytes_def) (simp add: as_bytes_def pod_read_bytes_of typed_to_val of_val_to_val)

lemma any_bytes:
  assumes "length bs = size_of layout"
  shows "\<exists>x. valid x \<and> as_bytes layout to_val x = bs \<and> from_bytes layout of_val bs = Some x"
proof (intro exI conjI)
  have v: "typed layout (pod_read layout bs)" "bytes_of layout (pod_read layout bs) = bs"
    using bytes_of_pod_read(1) [OF packed_layout assms] by simp_all
  from v(1) show "valid (of_val (pod_read layout bs))" by (simp add: to_val_of_val flip: typed_to_val)
  from v show "as_bytes layout to_val (of_val (pod_read layout bs)) = bs" by (simp add: as_bytes_def to_val_of_val)
  show "from_bytes layout of_val bs = Some (of_val (pod_read layout bs))" using assms by (simp add: from_bytes_def)
qed

lemma from_bytes_iff: "valid x \<Longrightarrow> from_bytes layout of_val bs = Some x \<longleftrightarrow> bs = as_bytes layout to_val x"
  using reads_back [of x] any_bytes [of bs] by (auto simp: from_bytes_def split: if_splits)

end

sublocale pod \<subseteq> codec "as_bytes layout to_val" "from_bytes layout of_val" valid
  by unfold_locales (rule reads_back)

lemmas struct_typing = typed_cases(1-4,6) typed_fields_cases field_of_def byte_array_array_bytes

lemma layouts_packed:
  "packed IpCidr_layout" "packed Rule_layout" "packed DropEvent_layout" "packed GlobalConfig_layout"
  "packed ConnKey_layout" "packed ConnVal_layout" "packed LogTokens_layout"
  by code_simp+

lemma layout_sizes [simp]:
  "size_of IpCidr_layout = 20" "size_of Rule_layout = 60" "size_of DropEvent_layout = 56" "size_of GlobalConfig_layout = 8"
  "size_of ConnKey_layout = 40" "size_of ConnVal_layout = 8" "size_of LogTokens_layout = 16"
  by code_simp+

section \<open>Each struct\<close>

definition ip_cidr_val :: "ip_cidr \<Rightarrow> cval" where
  "ip_cidr_val c = Vs [V8 (c_family c), V8 (c_prefix c), byte_array (c_pad c), byte_array (c_addr c)]"

definition ip_cidr_of_val :: "cval \<Rightarrow> ip_cidr" where
  "ip_cidr_of_val v = \<lparr>c_family = as8 (field_of v 0), c_prefix = as8 (field_of v 1),
     c_pad = array_bytes (field_of v 2), c_addr = array_bytes (field_of v 3)\<rparr>"

definition sized_cidr :: "ip_cidr \<Rightarrow> bool" where
  "sized_cidr c \<longleftrightarrow> length (c_pad c) = 2 \<and> length (c_addr c) = 16"

interpretation ip_cidr_pod: pod IpCidr_layout ip_cidr_val ip_cidr_of_val sized_cidr
  by (unfold_locales, rule layouts_packed)
    (auto simp: IpCidr_layout_def ip_cidr_val_def ip_cidr_of_val_def sized_cidr_def struct_typing)

definition rule_val :: "rule \<Rightarrow> cval" where
  "rule_val r = Vs [V8 (r_version r), V8 (r_direction r), V8 (r_action r), V8 (r_proto r), V32 (r_iface_ifindex r),
     ip_cidr_val (r_src r), ip_cidr_val (r_dst r), V16 (r_src_port_min r), V16 (r_src_port_max r),
     V16 (r_dst_port_min r), V16 (r_dst_port_max r), V8 (r_enabled r), byte_array (r_pad r)]"

definition rule_of_val :: "cval \<Rightarrow> rule" where
  "rule_of_val v =
     \<lparr>r_version = as8 (field_of v 0), r_direction = as8 (field_of v 1), r_action = as8 (field_of v 2),
      r_proto = as8 (field_of v 3), r_iface_ifindex = as32 (field_of v 4), r_src = ip_cidr_of_val (field_of v 5),
      r_dst = ip_cidr_of_val (field_of v 6), r_src_port_min = as16 (field_of v 7), r_src_port_max = as16 (field_of v 8),
      r_dst_port_min = as16 (field_of v 9), r_dst_port_max = as16 (field_of v 10), r_enabled = as8 (field_of v 11),
      r_pad = array_bytes (field_of v 12)\<rparr>"

definition sized_rule :: "rule \<Rightarrow> bool" where
  "sized_rule r \<longleftrightarrow> sized_cidr (r_src r) \<and> sized_cidr (r_dst r) \<and> length (r_pad r) = 3"

interpretation rule_pod: pod Rule_layout rule_val rule_of_val sized_rule
  by (unfold_locales, rule layouts_packed)
    (auto simp: Rule_layout_def rule_val_def rule_of_val_def sized_rule_def struct_typing
      ip_cidr_pod.typed_to_val ip_cidr_pod.of_val_to_val ip_cidr_pod.to_val_of_val)

definition drop_event_val :: "drop_event \<Rightarrow> cval" where
  "drop_event_val e = Vs [V64 (e_ts_ns e), V32 (e_ifindex e), V32 (e_rule_id e), byte_array (e_src e), byte_array (e_dst e),
     V16 (e_src_port e), V16 (e_dst_port e), V8 (e_proto e), V8 (e_family e), V8 (e_tcp_flags e), V8 (e_pad e)]"

definition drop_event_of_val :: "cval \<Rightarrow> drop_event" where
  "drop_event_of_val v =
     \<lparr>e_ts_ns = as64 (field_of v 0), e_ifindex = as32 (field_of v 1), e_rule_id = as32 (field_of v 2),
      e_src = array_bytes (field_of v 3), e_dst = array_bytes (field_of v 4),
      e_src_port = as16 (field_of v 5), e_dst_port = as16 (field_of v 6), e_proto = as8 (field_of v 7),
      e_family = as8 (field_of v 8), e_tcp_flags = as8 (field_of v 9), e_pad = as8 (field_of v 10)\<rparr>"

definition sized_event :: "drop_event \<Rightarrow> bool" where
  "sized_event e \<longleftrightarrow> length (e_src e) = 16 \<and> length (e_dst e) = 16"

interpretation drop_event_pod: pod DropEvent_layout drop_event_val drop_event_of_val sized_event
  by (unfold_locales, rule layouts_packed)
    (auto simp: DropEvent_layout_def drop_event_val_def drop_event_of_val_def sized_event_def struct_typing)

definition global_config_val :: "global_config \<Rightarrow> cval" where
  "global_config_val g = Vs [V8 (g_logging_enabled g), V8 (g_log_level g), V8 (g_active_bank g), V8 (g_conntrack_enabled g),
     V16 (g_rule_count g), V16 (g_pad2 g)]"

definition global_config_of_val :: "cval \<Rightarrow> global_config" where
  "global_config_of_val v =
     \<lparr>g_logging_enabled = as8 (field_of v 0), g_log_level = as8 (field_of v 1), g_active_bank = as8 (field_of v 2),
      g_conntrack_enabled = as8 (field_of v 3), g_rule_count = as16 (field_of v 4), g_pad2 = as16 (field_of v 5)\<rparr>"

interpretation global_config_pod: pod GlobalConfig_layout global_config_val global_config_of_val "\<lambda>_. True"
  by (unfold_locales, rule layouts_packed)
    (auto simp: GlobalConfig_layout_def global_config_val_def global_config_of_val_def struct_typing)

definition conn_key_val :: "conn_key \<Rightarrow> cval" where
  "conn_key_val k = Vs [V8 (k_proto k), V8 (k_family k), byte_array (k_pad k), byte_array (k_src_addr k), byte_array (k_dst_addr k),
     V16 (k_src_port k), V16 (k_dst_port k)]"

definition conn_key_of_val :: "cval \<Rightarrow> conn_key" where
  "conn_key_of_val v =
     \<lparr>k_proto = as8 (field_of v 0), k_family = as8 (field_of v 1), k_pad = array_bytes (field_of v 2),
      k_src_addr = array_bytes (field_of v 3), k_dst_addr = array_bytes (field_of v 4),
      k_src_port = as16 (field_of v 5), k_dst_port = as16 (field_of v 6)\<rparr>"

definition sized_key :: "conn_key \<Rightarrow> bool" where
  "sized_key k \<longleftrightarrow> length (k_pad k) = 2 \<and> length (k_src_addr k) = 16 \<and> length (k_dst_addr k) = 16"

interpretation conn_key_pod: pod ConnKey_layout conn_key_val conn_key_of_val sized_key
  by (unfold_locales, rule layouts_packed)
    (auto simp: ConnKey_layout_def conn_key_val_def conn_key_of_val_def sized_key_def struct_typing)

definition conn_val_val :: "conn_val \<Rightarrow> cval" where
  "conn_val_val v = Vs [V64 (last_seen_ns v)]"

definition conn_val_of_val :: "cval \<Rightarrow> conn_val" where
  "conn_val_of_val v = \<lparr>last_seen_ns = as64 (field_of v 0)\<rparr>"

interpretation conn_val_pod: pod ConnVal_layout conn_val_val conn_val_of_val "\<lambda>_. True"
  by (unfold_locales, rule layouts_packed)
    (auto simp: ConnVal_layout_def conn_val_val_def conn_val_of_val_def struct_typing)

definition log_tokens_val :: "log_tokens \<Rightarrow> cval" where
  "log_tokens_val t = Vs [V32 (tokens t), byte_array (t_pad t), V64 (last_refill_ns t)]"

definition log_tokens_of_val :: "cval \<Rightarrow> log_tokens" where
  "log_tokens_of_val v = \<lparr>tokens = as32 (field_of v 0), t_pad = array_bytes (field_of v 1), last_refill_ns = as64 (field_of v 2)\<rparr>"

definition sized_tokens :: "log_tokens \<Rightarrow> bool" where
  "sized_tokens t \<longleftrightarrow> length (t_pad t) = 4"

interpretation log_tokens_pod: pod LogTokens_layout log_tokens_val log_tokens_of_val sized_tokens
  by (unfold_locales, rule layouts_packed)
    (auto simp: LogTokens_layout_def log_tokens_val_def log_tokens_of_val_def sized_tokens_def struct_typing)

section \<open>Properties\<close>

text \<open>
  Property C15. The structs shared with the eBPF programs are plain bytes: none of the seven has a padding
  byte under the C layout, and every value crosses the maps and the ring buffer unharmed: a
  byte string reads as a value exactly if it is the bytes of that value, and every byte
  string of the right length reads as some value.
\<close>

theorem shared_structs_are_plain_bytes:
  assumes "sized_rule r" and "sized_event e" and "sized_key k" and "sized_tokens t"
  shows "list_all packed [IpCidr_layout, Rule_layout, DropEvent_layout, GlobalConfig_layout, ConnKey_layout, ConnVal_layout, LogTokens_layout] \<and>
    (from_bytes Rule_layout rule_of_val bs = Some r \<longleftrightarrow> bs = as_bytes Rule_layout rule_val r) \<and>
    (from_bytes DropEvent_layout drop_event_of_val bs = Some e \<longleftrightarrow> bs = as_bytes DropEvent_layout drop_event_val e) \<and>
    (from_bytes ConnKey_layout conn_key_of_val bs = Some k \<longleftrightarrow> bs = as_bytes ConnKey_layout conn_key_val k) \<and>
    (from_bytes GlobalConfig_layout global_config_of_val bs = Some g \<longleftrightarrow> bs = as_bytes GlobalConfig_layout global_config_val g) \<and>
    (from_bytes ConnVal_layout conn_val_of_val bs = Some v \<longleftrightarrow> bs = as_bytes ConnVal_layout conn_val_val v) \<and>
    (from_bytes LogTokens_layout log_tokens_of_val bs = Some t \<longleftrightarrow> bs = as_bytes LogTokens_layout log_tokens_val t) \<and>
    (from_bytes Rule_layout rule_of_val bs = None \<longleftrightarrow> length bs \<noteq> 60) \<and>
    (from_bytes DropEvent_layout drop_event_of_val bs = None \<longleftrightarrow> length bs \<noteq> 56)"
  using assms by (simp only: rule_pod.from_bytes_iff drop_event_pod.from_bytes_iff conn_key_pod.from_bytes_iff
      global_config_pod.from_bytes_iff conn_val_pod.from_bytes_iff log_tokens_pod.from_bytes_iff list.pred_inject layouts_packed simp_thms)
    (simp add: from_bytes_def)

theorem shared_structs_are_plain_bytes_witness:
  "from_bytes Rule_layout rule_of_val (as_bytes Rule_layout rule_val rule_empty) = Some rule_empty"
  using shared_structs_are_plain_bytes [of rule_empty
    "\<lparr>e_ts_ns = 0, e_ifindex = 0, e_rule_id = 0, e_src = replicate 16 0, e_dst = replicate 16 0,
      e_src_port = 0, e_dst_port = 0, e_proto = 0, e_family = 0, e_tcp_flags = 0, e_pad = 0\<rparr>"
    "\<lparr>k_proto = 0, k_family = 0, k_pad = [0, 0], k_src_addr = replicate 16 0, k_dst_addr = replicate 16 0,
      k_src_port = 0, k_dst_port = 0\<rparr>" "\<lparr>tokens = 0, t_pad = [0, 0, 0, 0], last_refill_ns = 0\<rparr>"]
  by (simp add: sized_rule_def sized_cidr_def sized_event_def sized_key_def sized_tokens_def rule_empty_def any_v4_def)

end
