(* ===== verification/Event_Log.thy ===== *)
theory Event_Log
  imports Data_Path Abi
begin

text \<open>
  The block log of the daemon (\<open>DedupeWindow\<close> and its helpers,
  \<open>src/crates/moatd/src/bin/moatd.rs\<close>): drop events are counted per source, port, protocol,
  interface and rule, and each second one line per group is written. The hash map is an
  association list with distinct keys; its iteration order is not specified by the code, so
  nothing below depends on it. The records of the ring buffer are bytes; \<open>if_indextoname\<close> is a
  parameter that fills a buffer or fails.
\<close>

section \<open>The window\<close>

record dedupe_key =
  w_family :: u8
  w_proto :: u8
  w_src :: "u8 list"
  w_dst_port :: u16
  w_ifindex :: u32
  w_rule_id :: u32

record dedupe_accum =
  hits :: u32
  first_event :: drop_event

type_synonym dedupe_window = "(dedupe_key \<times> dedupe_accum) list"

definition key_of :: "drop_event \<Rightarrow> dedupe_key" where
  "key_of event =
     \<lparr>w_family = e_family event, w_proto = e_proto event, w_src = e_src event,
      w_dst_port = e_dst_port event, w_ifindex = e_ifindex event, w_rule_id = e_rule_id event\<rparr>"

text \<open>\<open>entry(key).and_modify(..).or_insert(..)\<close>\<close>

fun upsert :: "dedupe_key \<Rightarrow> drop_event \<Rightarrow> dedupe_window \<Rightarrow> dedupe_window" where
  "upsert k event [] = [(k, \<lparr>hits = 1, first_event = event\<rparr>)]"
| "upsert k event ((k', a) # entries) =
     (if k' = k then (k', a\<lparr>hits := hits a + 1\<rparr>) # entries else (k', a) # upsert k event entries)"

definition record_event :: "drop_event \<Rightarrow> dedupe_window \<Rightarrow> dedupe_window" where
  "record_event event entries = upsert (key_of event) event entries"

section \<open>The lines\<close>

text \<open>\<open>Display\<close> of \<open>Ipv6Addr\<close>: IPv4-mapped addresses with a dotted quad, otherwise the first
  longest run of at least two zero groups compressed.\<close>

definition segments :: "u8 list \<Rightarrow> u16 list" where
  "segments bs = map (\<lambda>i. be_word [bs ! (2 * i), bs ! (2 * i + 1)]) [0..<8]"

fun longest_zeroes :: "nat \<Rightarrow> u16 list \<Rightarrow> nat \<times> nat \<Rightarrow> nat \<times> nat \<Rightarrow> nat \<times> nat" where
  "longest_zeroes i [] (cs, cl) (ls, ll) = (ls, ll)"
| "longest_zeroes i (x # xs) (cs, cl) (ls, ll) =
     (if x = 0 then
        (let cs = (if cl = 0 then i else cs); cl = cl + 1
         in longest_zeroes (Suc i) xs (cs, cl) (if cl > ll then (cs, cl) else (ls, ll)))
      else longest_zeroes (Suc i) xs (0, 0) (ls, ll))"

definition hex_groups :: "u16 list \<Rightarrow> string" where
  "hex_groups gs = join_with '':'' (map (\<lambda>g. show_radix 16 (unat g)) gs)"

definition ipv6_to_string :: "u8 list \<Rightarrow> string" where
  "ipv6_to_string bs =
     (if take 10 bs = replicate 10 0 \<and> take 2 (drop 10 bs) = [0xff, 0xff]
      then ''::ffff:'' @ ipv4_to_string (drop 12 bs)
      else
        let gs = segments bs; (start, n) = longest_zeroes 0 gs (0, 0) (0, 0)
        in if n > 1 then hex_groups (take start gs) @ ''::'' @ hex_groups (drop (start + n) gs)
           else hex_groups gs)"

definition format_addr :: "u8 \<Rightarrow> u8 list \<Rightarrow> string" where
  "format_addr family bytes =
     (if family = FAMILY_V4 then ipv4_to_string [bytes ! 0, bytes ! 1, bytes ! 2, bytes ! 3]
      else ipv6_to_string bytes)"

definition proto_name :: "u8 \<Rightarrow> string" where
  "proto_name p =
     (if p = PROTO_TCP then ''tcp''
      else if p = PROTO_UDP then ''udp''
      else if p = PROTO_ICMP then ''icmp''
      else if p = PROTO_ICMPV6 then ''icmpv6''
      else ''any'')"

definition rule_label :: "u32 \<Rightarrow> string" where
  "rule_label rule_id =
     (if rule_id = RULE_ID_DEFAULT then ''default'' else ''rule #'' @ dec_string (unat (rule_id + 1)))"

definition iface_name :: "(u32 \<Rightarrow> u8 list option) \<Rightarrow> u32 \<Rightarrow> string option" where
  "iface_name indextoname ifindex =
     (case indextoname ifindex of
        None \<Rightarrow> None
      | Some buf \<Rightarrow> let cstr = c_str buf in if utf8_valid cstr then Some (str_of_bytes cstr) else None)"

definition block_line :: "(u32 \<Rightarrow> u8 list option) \<Rightarrow> dedupe_accum \<Rightarrow> string" where
  "block_line indextoname accum =
     (let e = first_event accum;
          src = format_addr (e_family e) (e_src e);
          dst = format_addr (e_family e) (e_dst e);
          proto = proto_name (e_proto e);
          rule = rule_label (e_rule_id e);
          iface = (case iface_name indextoname (e_ifindex e) of
                     Some n \<Rightarrow> n | None \<Rightarrow> ''if'' @ dec_string (unat (e_ifindex e)));
          plural = (if hits accum = 1 then '''' else ''s'')
      in ''BLOCK src='' @ src @ '' dst='' @ dst @ '':'' @ dec_string (unat (e_dst_port e)) @ ''/'' @ proto @
         '' on '' @ iface @ '' ('' @ rule @ '', '' @ dec_string (unat (hits accum)) @ '' hit'' @ plural @ '' in 1s)'')"

definition flush :: "(u32 \<Rightarrow> u8 list option) \<Rightarrow> dedupe_window \<Rightarrow> string list \<times> dedupe_window" where
  "flush indextoname entries =
     (if entries = [] then ([], entries) else (map (\<lambda>(_, accum). block_line indextoname accum) entries, []))"

section \<open>The drainer\<close>

text \<open>One record of the ring buffer: skipped if it has not the size of a \<open>DropEvent\<close>.\<close>

definition record_item :: "u8 list \<Rightarrow> dedupe_window \<Rightarrow> dedupe_window" where
  "record_item bytes win =
     (case from_bytes DropEvent_layout drop_event_of_val bytes of None \<Rightarrow> win | Some event \<Rightarrow> record_event event win)"

text \<open>The select loop of \<open>drain_events\<close>: the ticker fires, or the ring buffer is readable and holds some
  records, or waiting for it fails.\<close>

datatype drain_event = Tick | Readable "u8 list list" | Readable_failed

fun drain_step :: "(u32 \<Rightarrow> u8 list option) \<Rightarrow> drain_event \<Rightarrow> string list \<times> dedupe_window \<Rightarrow> string list \<times> dedupe_window" where
  "drain_step indextoname Tick (out, win) = (case flush indextoname win of (lines, win') \<Rightarrow> (out @ lines, win'))"
| "drain_step indextoname (Readable items) (out, win) = (out, fold record_item items win)"
| "drain_step indextoname Readable_failed (out, win) = (out, win)"

definition drain_events :: "(u32 \<Rightarrow> u8 list option) \<Rightarrow> drain_event list \<Rightarrow> string list \<times> dedupe_window" where
  "drain_events indextoname es = fold (drain_step indextoname) es ([], [])"

section \<open>The counts are right\<close>

definition wf_window :: "dedupe_window \<Rightarrow> bool" where
  "wf_window win \<longleftrightarrow> distinct (map fst win) \<and> list_all (\<lambda>(k, a). key_of (first_event a) = k) win"

lemma fst_upsert: "fst ` set (upsert k e win) = insert k (fst ` set win)"
  by (induction k e win rule: upsert.induct) auto

lemma upsert_wf: "wf_window win \<Longrightarrow> key_of e = k \<Longrightarrow> wf_window (upsert k e win)"
proof (induction k e win rule: upsert.induct)
  case (2 k e k' a entries)
  then show ?case using fst_upsert [of k e entries] by (cases "k' = k") (force simp: wf_window_def)+
qed (simp add: wf_window_def)

interpretation window: event_invariant record_event "\<lambda>_. True" wf_window
  by unfold_locales (simp add: record_event_def upsert_wf)

lemma map_of_upsert:
  "map_of (upsert k e win) k' =
     (if k' = k then Some (case map_of win k of None \<Rightarrow> \<lparr>hits = 1, first_event = e\<rparr> | Some a \<Rightarrow> a\<lparr>hits := hits a + 1\<rparr>)
      else map_of win k')"
  by (induction k e win rule: upsert.induct) auto

text \<open>The group of a key after the events \<open>es\<close>.\<close>

lemma map_of_record:
  "map_of (fold record_event es []) k =
     (case filter (\<lambda>e. key_of e = k) es of
        [] \<Rightarrow> None
      | e # r \<Rightarrow> Some \<lparr>hits = of_nat (length (e # r)), first_event = e\<rparr>)"
proof (induction es rule: rev_induct)
  case (snoc e es)
  then show ?case
    by (cases "filter (\<lambda>e. key_of e = k) es") (auto simp: record_event_def map_of_upsert add.commute)
qed simp

lemma keys_record: "fst ` set (fold record_event es []) = key_of ` set es"
proof (induction es rule: rev_induct)
  case (snoc e es)
  then show ?case by (simp add: record_event_def fst_upsert)
qed simp

lemma total_upsert:
  "(\<forall>a. map_of win k = Some a \<longrightarrow> unat (hits a) + 1 < 2 ^ 32) \<Longrightarrow>
   sum_list (map (\<lambda>(_, a). unat (hits a)) (upsert k e win)) = Suc (sum_list (map (\<lambda>(_, a). unat (hits a)) win))"
  by (induction k e win rule: upsert.induct) (auto simp: unat_plus_exact)

lemma total_record:
  "length es < 2 ^ 32 \<Longrightarrow> sum_list (map (\<lambda>(_, a). unat (hits a)) (fold record_event es [])) = length es"
proof (induction es rule: rev_induct)
  case (snoc e es)
  have "unat (hits a) + 1 < 2 ^ 32" if "map_of (fold record_event es []) (key_of e) = Some a" for a
  proof -
    have "unat (hits a) \<le> length (filter (\<lambda>x. key_of x = key_of e) es)"
      using that by (auto simp: map_of_record split: list.splits) (metis length_Cons of_nat_Suc unat_of_nat mod_less_eq_dividend)
    also have "\<dots> \<le> length es" by simp
    finally show ?thesis using snoc.prems by simp
  qed
  then have "sum_list (map (\<lambda>(_, a). unat (hits a)) (upsert (key_of e) e (fold record_event es []))) =
      Suc (sum_list (map (\<lambda>(_, a). unat (hits a)) (fold record_event es [])))"
    by (intro total_upsert) blast
  with snoc show ?case by (simp add: record_event_def [of e])
qed simp

section \<open>From bytes to lines\<close>

text \<open>The events among some records of the ring buffer.\<close>

definition events_in :: "u8 list list \<Rightarrow> drop_event list" where
  "events_in items = List.map_filter (from_bytes DropEvent_layout drop_event_of_val) items"

lemma fold_record_item: "fold record_item items win = fold record_event (events_in items) win"
  by (induction items arbitrary: win) (simp_all add: events_in_def map_filter_simps record_item_def split: option.split)

lemma events_in_append [simp]: "events_in [] = []" "events_in (xs @ ys) = events_in xs @ events_in ys"
  by (simp_all add: events_in_def map_filter_def)

text \<open>What the eBPF programs write is read in full.\<close>

lemma events_in_bytes:
  "list_all sized_event es \<Longrightarrow> events_in (map (as_bytes DropEvent_layout drop_event_val) es) = es"
  by (induction es) (simp_all add: events_in_def map_filter_simps drop_event_pod.reads_back)

text \<open>An interface with a plain name appears under it.\<close>

lemma iface_name_plain:
  assumes "indextoname i = Some (bytes_of_str name @ 0 # tail_bytes)" "0 \<notin> set (bytes_of_str name)"
    and "list_all (\<lambda>b. b < 0x80) (bytes_of_str name)"
  shows "iface_name indextoname i = Some name"
  using assms by (simp add: iface_name_def c_str_terminated utf8_valid_ascii)

text \<open>Since the last tick, a drainer has recorded the events of everything it has read.\<close>

fun read_since_tick :: "drain_event list \<Rightarrow> u8 list list" where
  "read_since_tick [] = []"
| "read_since_tick (Tick # es) = []"
| "read_since_tick (Readable items # es) = read_since_tick es @ items"
| "read_since_tick (Readable_failed # es) = read_since_tick es"

lemma drain_events_window:
  "snd (drain_events X es) = fold record_event (events_in (read_since_tick (rev es))) []"
proof (induction es rule: rev_induct)
  case (snoc e es)
  then show ?case
    by (cases e; cases "fold (drain_step X) es ([], [])")
      (simp_all add: drain_events_def fold_record_item flush_def)
qed (simp add: drain_events_def)

section \<open>Properties\<close>

text \<open>
  Property C22. The block log neither loses nor invents drops: whatever records the drainer has read
  since its last tick, its window has one group per distinct combination of source, port, protocol,
  interface and rule among the records that are events; each group counts exactly the events of
  its combination and shows the first of them; and the next tick writes one line per group
  and empties the window.
\<close>

theorem block_log_counts_every_drop:
  assumes "events_in (read_since_tick (rev log)) = es" and "length es < 2 ^ 32"
  shows "\<exists>out win. drain_events X log = (out, win) \<and> distinct (map fst win) \<and> fst ` set win = key_of ` set es \<and>
    (\<forall>k. k \<in> key_of ` set es \<longrightarrow> (\<exists>a. map_of win k = Some a \<and>
       unat (hits a) = length (filter (\<lambda>e. key_of e = k) es) \<and> first_event a = hd (filter (\<lambda>e. key_of e = k) es))) \<and>
    sum_list (map (\<lambda>(_, a). unat (hits a)) win) = length es \<and>
    drain_events X (log @ [Tick]) = (out @ map (\<lambda>(_, a). block_line X a) win, [])"
proof -
  let ?win = "fold record_event es []"
  obtain out where run: "drain_events X log = (out, ?win)"
    using drain_events_window [of X log] assms(1) by (cases "drain_events X log") simp
  have d: "distinct (map fst ?win)"
    using window.run_inv [of "[]" es] by (simp add: wf_window_def list_all_iff)
  have per: "\<exists>a. map_of ?win k = Some a \<and> unat (hits a) = length (filter (\<lambda>e. key_of e = k) es) \<and>
      first_event a = hd (filter (\<lambda>e. key_of e = k) es)" if "k \<in> key_of ` set es" for k
  proof -
    from that obtain e r where er: "filter (\<lambda>e. key_of e = k) es = e # r"
      by (cases "filter (\<lambda>e. key_of e = k) es") (auto simp: filter_empty_conv)
    have "length (e # r) \<le> length es" unfolding er [symmetric] by (rule length_filter_le)
    then have "length (e # r) < 2 ^ LENGTH(32)" using assms(2) by simp
    then have "unat (of_nat (length (e # r)) :: u32) = length (e # r)" unfolding unat_of_nat by (rule mod_less)
    then show ?thesis by (simp add: map_of_record er)
  qed
  have "drain_events X (log @ [Tick]) = (out @ map (\<lambda>(_, a). block_line X a) ?win, [])"
    using run by (simp add: drain_events_def flush_def)
  with run d per keys_record [of es] total_record [OF assms(2)] show ?thesis by blast
qed

definition sample_events :: "drop_event list" where
  "sample_events = [drop_event_of (sample_ctx 5) sample_parsed 0, drop_event_of (sample_ctx 6) sample_parsed 0]"

theorem block_log_counts_every_drop_witness:
  "\<exists>out win. drain_events (\<lambda>_. None)
       [Readable [[1, 2, 3]], Tick, Readable ([7] # map (as_bytes DropEvent_layout drop_event_val) sample_events)] = (out, win) \<and>
     sum_list (map (\<lambda>(_, a). unat (hits a)) win) = 2"
proof -
  have "list_all sized_event sample_events"
    by (simp add: sample_events_def sized_event_def drop_event_of_def sample_parsed_def)
  then have "events_in ([7] # map (as_bytes DropEvent_layout drop_event_val) sample_events) = sample_events"
    using events_in_bytes [of sample_events] by (simp add: events_in_def map_filter_simps from_bytes_def [of _ _ "[7]"])
  moreover have "length sample_events = 2" by (simp add: sample_events_def)
  ultimately show ?thesis
    using block_log_counts_every_drop [of
        "[Readable [[1, 2, 3]], Tick, Readable ([7] # map (as_bytes DropEvent_layout drop_event_val) sample_events)]"
        sample_events "\<lambda>_. None"] by auto
qed

end
