(* ===== verification/Link_Watch.thy ===== *)
theory Link_Watch
  imports Daemon
begin

text \<open>
  Interfaces (\<open>iface_filter\<close>, \<open>attach_to_iface\<close>, the attach loop of \<open>run_daemon\<close> and
  \<open>watch_interfaces\<close>, \<open>src/crates/moatd/src/bin/moatd.rs\<close>): which interfaces are filtered,
  how the programs are attached, and the poll that follows interfaces as they come, go and
  change state. A snapshot is a hash map; the order in which the loop meets its entries is
  a parameter.
\<close>

section \<open>Which interfaces\<close>

definition is_skipped_iface :: "string \<Rightarrow> bool" where
  "is_skipped_iface name \<longleftrightarrow>
     name = ''lo'' \<or> starts_with ''docker'' name \<or> starts_with ''virbr'' name \<or> starts_with ''br-'' name \<or>
     starts_with ''veth'' name \<or> starts_with ''ipvl'' name"

text \<open>The argument is the environment variable \<open>MOAT_INTERFACES\<close>, where it is set.\<close>

definition iface_filter :: "string option \<Rightarrow> string \<Rightarrow> bool" where
  "iface_filter var name =
     (case var of
        Some val \<Rightarrow> name \<in> set (filter (\<lambda>s. s \<noteq> []) (map trim (split_on CHR '','' val)))
      | None \<Rightarrow> \<not> is_skipped_iface name)"

section \<open>Attaching\<close>

text \<open>The kernel's answers to the attach calls, and the insert into \<open>IFACE_L2\<close>; \<open>l2_law\<close> is what a
  hash map documents of a successful insert.\<close>

record attach_env =
  xdp_drv :: "string \<Rightarrow> bool"
  xdp_skb :: "string \<Rightarrow> bool"
  tc_egress :: "string \<Rightarrow> bool"
  l2_insert :: "(u32 \<Rightarrow> u8 option) \<Rightarrow> u32 \<Rightarrow> u8 \<Rightarrow> (err, u32 \<Rightarrow> u8 option) result"

definition l2_law :: "attach_env \<Rightarrow> bool" where
  "l2_law A \<longleftrightarrow> (\<forall>m i v m'. l2_insert A m i v = Inr m' \<longrightarrow> m' = m(i \<mapsto> v))"

definition attach_xdp_with_fallback :: "attach_env \<Rightarrow> string \<Rightarrow> (err, string) result" where
  "attach_xdp_with_fallback A iface =
     (if xdp_drv A iface then Inr ''drv''
      else if xdp_skb A iface then Inr ''skb''
      else Inl (Map_error ''XDP attach (SKB_MODE)''))"

definition set_iface_l2 :: "attach_env \<Rightarrow> u32 \<Rightarrow> u8 \<Rightarrow> bpf_maps \<Rightarrow> (err, unit) result \<times> bpf_maps" where
  "set_iface_l2 A ifindex l2_len m =
     (case l2_insert A (IFACE_L2 m) ifindex l2_len of
        Inl e \<Rightarrow> (Inl e, m)
      | Inr m' \<Rightarrow> (Inr (), m\<lparr>IFACE_L2 := m'\<rparr>))"

definition attach_to_iface :: "attach_env \<Rightarrow> sysfs \<Rightarrow> string \<Rightarrow> bpf_maps \<Rightarrow> (err, unit) result \<times> bpf_maps" where
  "attach_to_iface A S iface m =
     (case attach_xdp_with_fallback A iface of
        Inl e \<Rightarrow> (Inl e, m)
      | Inr _ \<Rightarrow>
          if \<not> tc_egress A iface then (Inl (Map_error ''TC egress attach''), m)
          else (case Wire.iface_ifindex S iface of
                  Some ifindex \<Rightarrow> (Inr (), snd (set_iface_l2 A ifindex (iface_l2_len S iface) m))
                | None \<Rightarrow> (Inr (), m)))"

text \<open>The first attach of \<open>run_daemon\<close>: \<open>names\<close> are the keys of the snapshot, in its order.\<close>

fun initial_attach ::
    "attach_env \<Rightarrow> sysfs \<Rightarrow> (string \<Rightarrow> bool) \<Rightarrow> (string \<Rightarrow> (u32 \<times> bool) option) \<Rightarrow> string list \<Rightarrow>
     (string \<Rightarrow> u32 option) \<times> bpf_maps \<Rightarrow> (string \<Rightarrow> u32 option) \<times> bpf_maps" where
  "initial_attach A S filt snap [] am = am"
| "initial_attach A S filt snap (name # names) (attached, m) =
     (case snap name of
        None \<Rightarrow> initial_attach A S filt snap names (attached, m)
      | Some (ifindex, _) \<Rightarrow>
          if \<not> filt name then initial_attach A S filt snap names (attached, m)
          else (case attach_to_iface A S name m of
                  (Inr _, m') \<Rightarrow> initial_attach A S filt snap names (attached(name \<mapsto> ifindex), m')
                | (Inl _, m') \<Rightarrow> initial_attach A S filt snap names (attached, m')))"

section \<open>The watcher\<close>

record watcher =
  last_snapshot :: "string \<Rightarrow> (u32 \<times> bool) option"
  attached_set :: "string \<Rightarrow> u32 option"
  shared :: daemon_state

fun attach_new ::
    "attach_env \<Rightarrow> sysfs \<Rightarrow> (string \<Rightarrow> bool) \<Rightarrow> (string \<Rightarrow> (u32 \<times> bool) option) \<Rightarrow> string list \<Rightarrow> watcher \<Rightarrow> watcher" where
  "attach_new A S filt current [] x = x"
| "attach_new A S filt current (name # names) x =
     (case current name of
        None \<Rightarrow> attach_new A S filt current names x
      | Some (ifindex, _) \<Rightarrow>
          if \<not> filt name then attach_new A S filt current names x
          else if attached_set x name = Some ifindex then attach_new A S filt current names x
          else (case attach_to_iface A S name (kmaps (shared x)) of
                  (Inl _, m) \<Rightarrow> attach_new A S filt current names (x\<lparr>shared := (shared x)\<lparr>kmaps := m\<rparr>\<rparr>)
                | (Inr _, m) \<Rightarrow>
                    let s = (shared x)\<lparr>kmaps := m\<rparr>;
                        s = (if name \<in> set (attached_interfaces s) then s
                             else s\<lparr>attached_interfaces := attached_interfaces s @ [name]\<rparr>)
                    in attach_new A S filt current names
                         (x\<lparr>attached_set := (attached_set x)(name \<mapsto> ifindex), shared := s\<rparr>)))"

definition iface_changed :: "(string \<Rightarrow> (u32 \<times> bool) option) \<Rightarrow> (string \<Rightarrow> (u32 \<times> bool) option) \<Rightarrow> string \<Rightarrow> bool" where
  "iface_changed prev current name \<longleftrightarrow>
     (case current name of Some v \<Rightarrow> prev name \<noteq> Some v | None \<Rightarrow> prev name \<noteq> None)"

definition touches_rules :: "(string \<Rightarrow> (u32 \<times> bool) option) \<Rightarrow> (string \<Rightarrow> (u32 \<times> bool) option) \<Rightarrow> user_rule list \<Rightarrow> bool" where
  "touches_rules prev current rules =
     list_ex (\<lambda>r. case u_iface r of Some name \<Rightarrow> iface_changed prev current name | None \<Rightarrow> False) rules"

text \<open>One tick of \<open>watch_interfaces\<close>; \<open>names\<close> is the order of the keys of the new snapshot. An error
  of the synchronisation is only logged, and the new snapshot becomes the baseline anyway.\<close>

definition watch_tick :: "attach_env \<Rightarrow> denv \<Rightarrow> (string \<Rightarrow> bool) \<Rightarrow> string list \<Rightarrow> watcher \<Rightarrow> watcher" where
  "watch_tick A E filt names x =
     (let current = iface_snapshot (net E);
          x = attach_new A (net E) filt current names x
      in if current = last_snapshot x then x
         else if touches_rules (last_snapshot x) current (d_rules (ds_on_disk (shared x)))
         then x\<lparr>shared := snd (sync_rules E (shared x)), last_snapshot := current\<rparr>
         else x\<lparr>last_snapshot := current\<rparr>)"

section \<open>What the watcher keeps\<close>

lemma set_iface_l2_frame:
  "RULES (snd (set_iface_l2 A i v m)) = RULES m" "CONFIG (snd (set_iface_l2 A i v m)) = CONFIG m"
  "DEFAULT_POLICY (snd (set_iface_l2 A i v m)) = DEFAULT_POLICY m"
  by (simp_all add: set_iface_l2_def split: sum.split)

lemma attach_to_iface_frame:
  "RULES (snd (attach_to_iface A S i m)) = RULES m" "CONFIG (snd (attach_to_iface A S i m)) = CONFIG m"
  "DEFAULT_POLICY (snd (attach_to_iface A S i m)) = DEFAULT_POLICY m"
  by (simp_all add: attach_to_iface_def set_iface_l2_frame split: sum.split option.split)

definition same_policy :: "watcher \<Rightarrow> watcher \<Rightarrow> bool" where
  "same_policy x y \<longleftrightarrow> ds_on_disk (shared y) = ds_on_disk (shared x) \<and> active_bank (shared y) = active_bank (shared x) \<and>
     last_snapshot y = last_snapshot x \<and> RULES (kmaps (shared y)) = RULES (kmaps (shared x)) \<and>
     CONFIG (kmaps (shared y)) = CONFIG (kmaps (shared x)) \<and> DEFAULT_POLICY (kmaps (shared y)) = DEFAULT_POLICY (kmaps (shared x))"

lemma attach_new_same_policy: "same_policy x (attach_new A S filt current names x)"
proof (induction names arbitrary: x)
  case Nil
  then show ?case by (simp add: same_policy_def)
next
  case (Cons name names)
  have step: "same_policy x (attach_new A S filt current names y)" if "same_policy x y" for y
    using that Cons.IH [of y] by (simp add: same_policy_def)
  obtain r m where a: "attach_to_iface A S name (kmaps (shared x)) = (r, m)" by fastforce
  have m: "RULES m = RULES (kmaps (shared x))" "CONFIG m = CONFIG (kmaps (shared x))"
    "DEFAULT_POLICY m = DEFAULT_POLICY (kmaps (shared x))"
    using attach_to_iface_frame [of A S name "kmaps (shared x)"] by (simp_all add: a)
  show ?case
  proof (cases "current name")
    case None
    with Cons.IH show ?thesis by simp
  next
    case (Some v)
    obtain ifindex up where v: "v = (ifindex, up)" by fastforce
    show ?thesis
      using m by (cases r) (auto simp: Some v a Let_def intro!: step, auto simp: same_policy_def)
  qed
qed

lemma unchanged_resolution:
  assumes "sysfs_listed S" "sysfs_listed S'"
    and "\<not> touches_rules (iface_snapshot S) (iface_snapshot S') (d_rules od)"
  shows "resolved S od = resolved S' od"
proof -
  have "resolve_iface S (u_iface r) = resolve_iface S' (u_iface r)" if "r \<in> set (d_rules od)" for r
  proof (cases "u_iface r")
    case None
    then show ?thesis by (simp add: resolve_iface_def)
  next
    case (Some name)
    with that assms(3) have "\<not> iface_changed (iface_snapshot S) (iface_snapshot S') name"
      by (fastforce simp: touches_rules_def list_ex_iff)
    then have "iface_snapshot S name = iface_snapshot S' name"
      by (auto simp: iface_changed_def split: option.splits)
    with Some assms(1,2) show ?thesis by (simp add: resolve_iface_snapshot)
  qed
  then show ?thesis by (simp add: resolved_def)
qed

lemma equal_snapshots_touch_nothing: "\<not> touches_rules snap snap rules"
  by (auto simp: touches_rules_def list_ex_iff iface_changed_def split: option.splits)

lemma watch_tick_in_force:
  assumes "maps_ok E" and "maps_total E" and "sysfs_listed S" and "sysfs_listed (net E)"
    and "last_snapshot x = iface_snapshot S" and "daemon_inv (shared x)"
    and "in_force S (ds_on_disk (shared x)) (kmaps (shared x))"
    and "is_ok (translate_rules (net E) (d_rules (ds_on_disk (shared x))))"
  shows "in_force (net E) (ds_on_disk (shared x)) (kmaps (shared (watch_tick A E filt names x))) \<and>
    last_snapshot (watch_tick A E filt names x) = iface_snapshot (net E)"
proof -
  let ?cur = "iface_snapshot (net E)" and ?y = "attach_new A (net E) filt (iface_snapshot (net E)) names x"
  let ?od = "ds_on_disk (shared x)" and ?m = "kmaps (shared (attach_new A (net E) filt (iface_snapshot (net E)) names x))"
  have y: "ds_on_disk (shared ?y) = ?od" "active_bank (shared ?y) = active_bank (shared x)" "last_snapshot ?y = iface_snapshot S"
    using attach_new_same_policy [of x A "net E" filt ?cur names] assms(5) by (simp_all add: same_policy_def)
  have force: "in_force S ?od ?m"
    using attach_new_same_policy [of x A "net E" filt ?cur names] assms(7)
      in_force_cong [of ?m "kmaps (shared x)" S ?od] by (simp add: same_policy_def)
  show ?thesis
  proof (cases "touches_rules (iface_snapshot S) ?cur (d_rules ?od)")
    case False
    then have "in_force (net E) ?od ?m"
      using force in_force_resolved [OF unchanged_resolution [OF assms(3,4)]] by simp
    with False y show ?thesis by (auto simp: watch_tick_def Let_def)
  next
    case True
    then have ne: "?cur \<noteq> iface_snapshot S" using equal_snapshots_touch_nothing by metis
    obtain rs where "translate_rules (net E) (d_rules ?od) = Inr rs" using assms(8) by (auto simp: is_ok_iff)
    with assms(2,6) y obtain w' where w': "sync_rules E (shared ?y) = (Inr (), w')"
      using sync_rules_succeeds [of E "shared ?y" rs] by (auto simp: daemon_inv_def)
    have "in_force (net E) ?od (kmaps w')"
      using sync_rules_in_force(1) [OF assms(1) _ _ w'] y assms(6) force
      by (simp add: daemon_inv_def wf_on_disk_def in_force_def)
    with True ne y w' show ?thesis by (auto simp: watch_tick_def Let_def)
  qed
qed

section \<open>Properties\<close>

text \<open>
  The link watcher keeps the rules on the right interfaces: if the policy was in force
  for the interfaces of the last snapshot, then after a tick it is in force for the
  interfaces as they are now, whatever appeared, vanished, changed its index or its state in
  between and whichever attaches failed; rules that no change touches need no rewrite.
\<close>

theorem watcher_keeps_policy_in_force:
  assumes "maps_ok E" and "maps_total E" and "sysfs_listed S" and "sysfs_listed (net E)"
    and "last_snapshot x = iface_snapshot S" and "daemon_inv (shared x)"
    and "in_force S (ds_on_disk (shared x)) (kmaps (shared x))"
    and "is_ok (translate_rules (net E) (d_rules (ds_on_disk (shared x))))"
  shows "in_force (net E) (ds_on_disk (shared x)) (kmaps (shared (watch_tick A E filt names x))) \<and>
    last_snapshot (watch_tick A E filt names x) = iface_snapshot (net E)"
  using assms by (rule watch_tick_in_force)

definition no_attach :: attach_env where
  "no_attach = \<lparr>xdp_drv = (\<lambda>_. False), xdp_skb = (\<lambda>_. False), tc_egress = (\<lambda>_. False), l2_insert = (\<lambda>_ _ _. Inl (Map_error ''full''))\<rparr>"

definition eth0_od :: on_disk where
  "eth0_od = on_disk_default\<lparr>d_rules := [ping_rule\<lparr>u_iface := Some ''eth0''\<rparr>]\<rparr>"

lemma sample_sysfs_listed: "sysfs_listed (sample_sysfs st)"
  by (auto simp: sysfs_listed_def sample_sysfs_def net_file_def)

lemma translate_eth0: "\<exists>r. translate_rules S (d_rules eth0_od) = Inr [r]"
  by (simp add: eth0_od_def ping_rule_def icmp_port_rule_def build_wire_rule_def parse_opt_def rule_family_def port_bounds_def)

theorem watcher_keeps_policy_in_force_witness:
  "\<exists>x. in_force (sample_sysfs ''down'') eth0_od (kmaps (shared x)) \<and>
     in_force (sample_sysfs ''up'') eth0_od (kmaps (shared (watch_tick no_attach sample_env (\<lambda>_. True) [''eth0''] x)))"
proof -
  let ?E = "sample_env\<lparr>net := sample_sysfs ''down''\<rparr>" and ?w = "sample_state\<lparr>ds_on_disk := eth0_od\<rparr>"
  have laws: "maps_ok ?E" "maps_total ?E" using sample_env_laws(1,2) by (simp_all add: maps_ok_def maps_total_def)
  have b: "bank_ok (active_bank ?w)" by (simp add: sample_state_def bank_ok_def)
  have od: "wf_on_disk eth0_od" by (simp add: wf_on_disk_def eth0_od_def on_disk_default_def valid_iface_name_def)
  obtain w where w: "sync_all ?E ?w = (Inr (), w)"
    using sync_all_succeeds [OF laws(2) b] translate_eth0 [of "net ?E"] by auto
  then have f: "in_force (sample_sysfs ''down'') eth0_od (kmaps w)" "bank_consistent w"
    using sync_all_in_force [OF laws(1) b _ w] od by (simp_all add: wf_on_disk_def)
  have same: "ds_on_disk w = eth0_od" using sync_frame(3) [of ?E ?w] by (simp add: w)
  let ?x = "\<lparr>last_snapshot = iface_snapshot (sample_sysfs ''down''), attached_set = Map.empty, shared = w\<rparr>"
  have "net sample_env = sample_sysfs ''up''" by (simp add: sample_env_def)
  with watcher_keeps_policy_in_force [of sample_env "sample_sysfs ''down''" ?x no_attach "\<lambda>_. True" "[''eth0'']"]
    translate_eth0 [of "sample_sysfs ''up''"] f od same
  have "in_force (sample_sysfs ''up'') eth0_od (kmaps (shared (watch_tick no_attach sample_env (\<lambda>_. True) [''eth0''] ?x)))"
    by (auto simp: sample_sysfs_listed daemon_inv_def bank_consistent_def is_ok_iff)
  with f(1) show ?thesis by (intro exI [of _ ?x]) simp
qed

end
