(* ===== verification/Firewall.thy ===== *)
theory Firewall
  imports Cli Event_Log Link_Watch
begin

text \<open>
  What the service of the daemon rests on: the control plane as the data path sees it (it loads
  policy and nothing else), the verdicts an administrator expects of a rule set and that a
  rule set in force gives exactly these, and the command line in front of the control
  socket.
\<close>

section \<open>Requests\<close>

text \<open>Whether a rule translates does not depend on where its interface is.\<close>

lemma build_wire_rule_any_iface: "is_ok (build_wire_rule u i) = is_ok (build_wire_rule u j)"
  by (simp add: build_wire_rule_def rbind_def Let_def is_ok_iff split: sum.split prod.split)

lemma translate_rules_any_sysfs: "is_ok (translate_rules S us) = is_ok (translate_rules S' us)"
proof (induction us)
  case (Cons u us)
  with build_wire_rule_any_iface [of u "resolve_iface S (u_iface u)" "resolve_iface S' (u_iface u)"]
  show ?case by (auto simp: is_ok_iff split: sum.split)
qed simp

lemma dispatch_inv: "daemon_inv w \<Longrightarrow> dispatch E req w = (resp, w') \<Longrightarrow> daemon_inv w'"
  using daemon.inv_step [of w "(E, req)"] by (simp add: serve_def)

lemma dispatch_other_responses:
  assumes "dispatch E req w = (resp, w')" "resp \<noteq> Resp_Ok" "\<And>e. resp \<noteq> Resp_Err e"
  shows "w' = w"
proof (cases "accepts req (ds_on_disk w)")
  case True
  with assms show ?thesis
    using to_response_cases [of "persist_and_sync E (update_on_disk (spec_step req) w)"] by (auto simp: dispatch_accepted)
next
  case False
  then show ?thesis using dispatch_not_accepted(1) [OF False, of E] assms(1) by simp
qed

lemma attach_new_frame [simp]:
  "ds_on_disk (shared (attach_new A S filt cur names x)) = ds_on_disk (shared x)"
  "active_bank (shared (attach_new A S filt cur names x)) = active_bank (shared x)"
  "last_snapshot (attach_new A S filt cur names x) = last_snapshot x"
  using attach_new_same_policy [of x A S filt cur names] by (simp_all add: same_policy_def)

section \<open>The control plane as the data path sees it\<close>

text \<open>The control plane writes policy and nothing else: seen from the data path, a request or a poll
  is a load.\<close>

definition loads :: "bpf_maps \<Rightarrow> bpf_maps \<Rightarrow> bool" where
  "loads m m' \<longleftrightarrow> CONNTRACK m' = CONNTRACK m \<and> EVENTS m' = EVENTS m \<and> LOG_TOKENS m' = LOG_TOKENS m"

definition loader :: "dstep \<Rightarrow> bool" where
  "loader f \<longleftrightarrow> (\<forall>w. loads (kmaps w) (kmaps (snd (f w))) \<and> IFACE_L2 (kmaps (snd (f w))) = IFACE_L2 (kmaps w))"

lemma loaderD: "loader f \<Longrightarrow> loads (kmaps w) (kmaps (snd (f w)))" "loader f \<Longrightarrow> IFACE_L2 (kmaps (snd (f w))) = IFACE_L2 (kmaps w)"
  by (simp_all add: loader_def)

lemma loads_dp_step: "loads m m' \<Longrightarrow> dp_step K (Load m') m = m'"
  by (simp add: loads_def)

lemma loads_refl [simp]: "loads m m"
  by (simp add: loads_def)

lemma loader_and_then: "loader f \<Longrightarrow> loader g \<Longrightarrow> loader (and_then f g)"
  unfolding loader_def and_then_def loads_def by (simp split: prod.split sum.split) (metis snd_conv)

lemma loader_set: "loader (set_policy E i a)" "loader (set_rule E i r)" "loader (set_config E i c)"
  by (simp_all add: loader_def loads_def set_policy_def set_rule_def set_config_def put_maps_def split: sum.split)

lemma loader_write_rules: "loader (write_rules E base i rs)"
proof (induction rs arbitrary: i)
  case (Cons r rs)
  have "write_rules E base i (r # rs) = and_then (set_rule E (base + i) r) (write_rules E base (i + 1) rs)"
    by (rule ext) simp
  with Cons show ?case by (simp add: loader_and_then loader_set)
qed (simp add: loader_def)

lemma loader_sync_rules: "loader (sync_rules E)"
proof -
  have "loader (\<lambda>w. write_config E (w\<lparr>active_bank := b\<rparr>))" for b
  proof -
    from loaderD [OF loader_set(3) [of E 0], where w = "_\<lparr>active_bank := b\<rparr>"] show ?thesis
      by (simp add: loader_def write_config_def)
  qed
  from loader_and_then [OF loader_write_rules this] show ?thesis
    unfolding loader_def sync_rules_def Let_def by (simp split: sum.split)
qed

lemma loader_sync_all: "loader (sync_all E)"
proof -
  have "loader (sync_defaults E)"
    using loader_and_then [OF loader_set(1) loader_set(1)] unfolding loader_def sync_defaults_def by blast
  then show ?thesis by (simp add: sync_all_def loader_and_then loader_sync_rules)
qed

lemma kmaps_update_on_disk: "kmaps (update_on_disk f w) = kmaps w"
  by (simp add: update_on_disk_def)

lemma dispatch_loads:
  "loads (kmaps w) (kmaps (snd (dispatch E req w)))" "IFACE_L2 (kmaps (snd (dispatch E req w))) = IFACE_L2 (kmaps w)"
proof -
  have "loads (kmaps w) (kmaps (snd (dispatch E req w))) \<and> IFACE_L2 (kmaps (snd (dispatch E req w))) = IFACE_L2 (kmaps w)"
  proof (cases "accepts req (ds_on_disk w)")
    case True
    have "loader (persist_and_sync E)"
      unfolding persist_and_sync_def
      by (intro loader_and_then loader_sync_all) (simp add: loader_def save_rules_def split: prod.split)
    with to_response_cases [of "persist_and_sync E (update_on_disk (spec_step req) w)"] show ?thesis
      unfolding dispatch_accepted [OF True] by (metis loaderD snd_conv kmaps_update_on_disk)
  next
    case False
    then show ?thesis by (simp add: dispatch_not_accepted(1))
  qed
  then show "loads (kmaps w) (kmaps (snd (dispatch E req w)))"
    "IFACE_L2 (kmaps (snd (dispatch E req w))) = IFACE_L2 (kmaps w)" by simp_all
qed

lemma attach_to_iface_loads: "loads m (snd (attach_to_iface A S i m))"
  by (simp add: loads_def attach_to_iface_def set_iface_l2_def split: sum.split option.split)

section \<open>Verdicts\<close>

text \<open>The verdict the administrator expects: packets that are not IP and neighbour discovery pass, what
  cannot be parsed is refused, the rest is decided by the policy unless the flow is
  established.\<close>

definition expected_in :: "sysfs \<Rightarrow> on_disk \<Rightarrow> kernel \<Rightarrow> packet_ctx \<Rightarrow> bpf_maps \<Rightarrow> u32" where
  "expected_in S od K y m =
     (case parse_ctx K y m of
        None \<Rightarrow> XDP_ABORTED
      | Some None \<Rightarrow> XDP_PASS
      | Some (Some p) \<Rightarrow>
          if is_ndp p \<or> needs_conntrack od \<and> established m (reverse_key p) (x_now y) \<or> policy S od In (x_ifindex y) p = Allow
          then XDP_PASS else XDP_DROP)"

definition expected_out :: "sysfs \<Rightarrow> on_disk \<Rightarrow> kernel \<Rightarrow> packet_ctx \<Rightarrow> bpf_maps \<Rightarrow> u32" where
  "expected_out S od K y m =
     (case parse_ctx K y m of
        None \<Rightarrow> TC_ACT_SHOT
      | Some None \<Rightarrow> TC_ACT_PIPE
      | Some (Some p) \<Rightarrow>
          if is_ndp p \<or> needs_conntrack od \<and> established m (forward_key p) (x_now y) \<or> policy S od Out (x_ifindex y) p = Allow
          then TC_ACT_PIPE else TC_ACT_SHOT)"

lemma action_byte_allow: "action_byte a = ACT_ALLOW \<longleftrightarrow> a = Allow"
  by (cases a) (simp_all add: moat_consts)

lemma in_force_walk:
  assumes "in_force S od m" "wf_parsed p"
  shows "fst (walk_rules m DIR_IN ifi p) = ACT_ALLOW \<longleftrightarrow> policy S od In ifi p = Allow"
    and "fst (walk_rules m DIR_OUT ifi p) = ACT_ALLOW \<longleftrightarrow> policy S od Out ifi p = Allow"
proof -
  have "fst (walk_rules m (direction_byte d) ifi p) = action_byte (policy S od d ifi p)" for d
    using assms by (simp add: in_force_def)
  from this [of In] this [of Out] show "fst (walk_rules m DIR_IN ifi p) = ACT_ALLOW \<longleftrightarrow> policy S od In ifi p = Allow"
    "fst (walk_rules m DIR_OUT ifi p) = ACT_ALLOW \<longleftrightarrow> policy S od Out ifi p = Allow"
    by (simp_all add: action_byte_allow)
qed

lemma in_force_verdicts:
  assumes "in_force S od m" "rfc_headers (hdrs K)"
  shows "fst (moat_ingress K y m) = expected_in S od K y m" and "fst (moat_egress K y m) = expected_out S od K y m"
proof -
  have wf: "wf_parsed p" if "parse_ctx K y m = Some (Some p)" for p
    using that assms(2) by (simp add: parse_ctx_def parse_packet_wf)
  have ct: "conntrack_enabled m = needs_conntrack od" using assms(1) by (simp add: in_force_def)
  show "fst (moat_ingress K y m) = expected_in S od K y m"
    using wf in_force_walk(1) [OF assms(1)] by (auto simp: ingress_cases expected_in_def ct split: option.split)
  show "fst (moat_egress K y m) = expected_out S od K y m"
    using wf in_force_walk(2) [OF assms(1)] by (auto simp: egress_cases expected_out_def ct split: option.split)
qed

section \<open>The command line in front of the daemon\<close>

fun add_cmd :: "action \<Rightarrow> string list \<Rightarrow> cmd" where
  "add_cmd Allow spec = Cmd_Allow spec"
| "add_cmd Deny spec = Cmd_Deny spec"
| "add_cmd Reject spec = Cmd_Reject spec"

lemma main_add_cmd: "main C rpc (add_cmd a spec) = add (apps C) rpc a spec"
  by (cases a) (simp_all add: fun_eq_iff)

definition with_rules :: "on_disk \<Rightarrow> user_rule list \<Rightarrow> on_disk" where
  "with_rules od rs = od\<lparr>d_rules := d_rules od @ rs\<rparr>"

lemma with_rules_simps [simp]: "with_rules od [] = od" "with_rules (with_rules od rs) rs' = with_rules od (rs @ rs')"
  by (simp_all add: with_rules_def)

lemma spec_step_add: "spec_step (Req_AddRule r) od = with_rules od [r] \<or> spec_step (Req_AddRule r) od = od"
  by (simp add: with_rules_def)

lemma dispatch_add_ok:
  assumes "dispatch E (Req_AddRule r) w = (Resp_Ok, w')"
  shows "spec_step (Req_AddRule r) (ds_on_disk w) = with_rules (ds_on_disk w) [r]"
  using assms dispatch_not_accepted(3) [of "Req_AddRule r" w E]
  by (cases "accepts (Req_AddRule r) (ds_on_disk w)") (auto simp: with_rules_def)

lemma add_loop_ok:
  assumes "json_round_trip J" "link_law L" "maps_ok E"
  shows "add_loop (call L J E) rules w = (Inr u, w') \<Longrightarrow> daemon_inv w \<Longrightarrow>
    daemon_inv w' \<and> ds_on_disk w' = with_rules (ds_on_disk w) rules \<and>
    (rules \<noteq> [] \<longrightarrow> (\<exists>w1 r. daemon_inv w1 \<and> dispatch E (Req_AddRule r) w1 = (Resp_Ok, w')))"
proof (induction rules arbitrary: w)
  case (Cons r rules)
  obtain w1 where c: "call L J E (Req_AddRule r) w = (Inr Resp_Ok, w1)" and more: "add_loop (call L J E) rules w1 = (Inr u, w')"
    using Cons.prems(1) by (auto split: prod.splits sum.splits response.splits)
  from call_answers [OF assms(1,2) c] have d: "dispatch E (Req_AddRule r) w = (Resp_Ok, w1)" .
  have w1: "daemon_inv w1" by (rule dispatch_inv [OF Cons.prems(2) d])
  have od: "ds_on_disk w1 = with_rules (ds_on_disk w) [r]"
    using dispatch_ok_effect(1) [OF assms(3) Cons.prems(2) d] dispatch_add_ok [OF d] by simp
  from Cons.IH [OF more w1] od d Cons.prems(2) show ?case
    by (cases "rules = []") (use more in auto)
qed simp

lemma call_add:
  assumes "json_round_trip J" "link_law L"
  shows "ds_on_disk (snd (call L J E (Req_AddRule r) w)) \<in> {ds_on_disk w, with_rules (ds_on_disk w) [r]}"
  using call_runs_once [OF assms, of E "Req_AddRule r" w] serve_on_disk [of "(E, Req_AddRule r)" w] spec_step_add [of r "ds_on_disk w"]
  by (auto simp: serve_def)

lemma add_loop_prefix:
  assumes "json_round_trip J" "link_law L" "maps_ok E"
  shows "daemon_inv w \<Longrightarrow> \<exists>k \<le> length rules. ds_on_disk (snd (add_loop (call L J E) rules w)) = with_rules (ds_on_disk w) (take k rules)"
proof (induction rules arbitrary: w)
  case (Cons r rules)
  obtain res w1 where c: "call L J E (Req_AddRule r) w = (res, w1)" by fastforce
  have w1: "ds_on_disk w1 \<in> {ds_on_disk w, with_rules (ds_on_disk w) [r]}"
    using call_add [OF assms(1,2), of E r w] by (simp add: c)
  show ?case
  proof (cases "res = Inr Resp_Ok")
    case True
    with c have d: "dispatch E (Req_AddRule r) w = (Resp_Ok, w1)" by (intro call_answers [OF assms(1,2)]) simp
    have "ds_on_disk w1 = with_rules (ds_on_disk w) [r]"
      using dispatch_ok_effect(1) [OF assms(3) Cons.prems d] dispatch_add_ok [OF d] by simp
    moreover have "daemon_inv w1" by (rule dispatch_inv [OF Cons.prems d])
    ultimately obtain k where "k \<le> length rules"
      "ds_on_disk (snd (add_loop (call L J E) rules w1)) = with_rules (ds_on_disk w) (r # take k rules)"
      using Cons.IH [of w1] by auto
    then show ?thesis using True c by (intro exI [of _ "Suc k"]) simp
  next
    case False
    then have "snd (add_loop (call L J E) (r # rules) w) = w1"
      using c by (auto split: sum.split response.split)
    with w1 show ?thesis
      by (elim insertE) (auto intro: exI [of _ 0] exI [of _ 1])
  qed
qed simp

end
