(* ===== verification/Startup.thy ===== *)
theory Startup
  imports Firewall
begin

text \<open>
  The start of the daemon (\<open>run_daemon\<close> up to its service loop,
  \<open>src/crates/moatd/src/bin/moatd.rs\<close>): the object that the eBPF crate builds is loaded, both
  programs go into the kernel and onto the interfaces there are, the maps are taken out of
  the object by name, the rules file is read, the first synchronisation runs, the watcher
  starts and the control socket is bound. The crate aya is a parameter; \<open>aya_law\<close> is what it
  documents. The object is the one \<open>src/crates/moatd-ebpf/src/main.rs\<close> declares.
\<close>

section \<open>The object\<close>

datatype prog_kind = Xdp_kind | Classifier_kind

text \<open>The kinds of maps with the sizes of their keys and values and their number of entries.\<close>

datatype map_kind =
    Array_kind nat nat
  | Per_cpu_array_kind nat nat
  | Hash_kind nat nat nat
  | Lru_hash_kind nat nat nat
  | Ring_buf_kind nat

record ebpf =
  programs :: "(string \<times> prog_kind) list"
  obj_maps :: "(string \<times> map_kind) list"

definition moatd_bpf :: ebpf where
  "moatd_bpf =
     \<lparr>programs = [(''moat_ingress'', Xdp_kind), (''moat_egress'', Classifier_kind)],
      obj_maps =
        [(''RULES'', Array_kind (size_of Rule_layout) (unat RULES_SLOTS)),
         (''DEFAULT_POLICY'', Array_kind 1 3),
         (''CONFIG'', Array_kind (size_of GlobalConfig_layout) 1),
         (''CONNTRACK'', Lru_hash_kind (size_of ConnKey_layout) (size_of ConnVal_layout) (unat CONNTRACK_MAX_ENTRIES)),
         (''EVENTS'', Ring_buf_kind (unat RINGBUF_BYTES)),
         (''LOG_TOKENS'', Per_cpu_array_kind (size_of LogTokens_layout) 1),
         (''IFACE_L2'', Hash_kind 4 1 64)]\<rparr>"

record aya =
  load_object :: "ebpf \<Rightarrow> (err, ebpf) result"
  logger_init :: "ebpf \<Rightarrow> (err, unit) result \<times> ebpf"
  program_mut :: "ebpf \<Rightarrow> string \<Rightarrow> prog_kind option"
  try_xdp :: "prog_kind \<Rightarrow> (err, unit) result"
  try_classifier :: "prog_kind \<Rightarrow> (err, unit) result"
  prog_load :: "string \<Rightarrow> (err, unit) result"
  prog_fd :: "string \<Rightarrow> (err, u32) result"
  map_mut :: "ebpf \<Rightarrow> string \<Rightarrow> map_kind option"
  take_map :: "ebpf \<Rightarrow> string \<Rightarrow> (map_kind \<times> ebpf) option"
  try_array :: "nat \<Rightarrow> map_kind \<Rightarrow> (err, unit) result"
  try_hash :: "nat \<Rightarrow> nat \<Rightarrow> map_kind \<Rightarrow> (err, unit) result"
  try_ring_buf :: "map_kind \<Rightarrow> (err, unit) result"
  async_fd :: "(err, unit) result"

definition without_map :: "string \<Rightarrow> ebpf \<Rightarrow> ebpf" where
  "without_map name eb = eb\<lparr>obj_maps := filter (\<lambda>(n, _). n \<noteq> name) (obj_maps eb)\<rparr>"

text \<open>
  What aya documents: an object that loads has its programs and maps; the logger takes at most
  its own map; programs and maps are found by name and a map is taken once; a loaded program has a
  file descriptor; a program or map converts to its own type, an array only with its own value
  size, a hash map (also an LRU one) only with its own key and value sizes.
\<close>

definition aya_law :: "aya \<Rightarrow> bool" where
  "aya_law P \<longleftrightarrow>
     (\<forall>eb eb'. load_object P eb = Inr eb' \<longrightarrow> eb' = eb) \<and>
     (\<forall>eb. snd (logger_init P eb) = eb \<or> snd (logger_init P eb) = without_map ''AYA_LOGS'' eb) \<and>
     (\<forall>eb name. program_mut P eb name = map_of (programs eb) name) \<and>
     (\<forall>k. is_ok (try_xdp P k) \<longleftrightarrow> k = Xdp_kind) \<and>
     (\<forall>k. is_ok (try_classifier P k) \<longleftrightarrow> k = Classifier_kind) \<and>
     (\<forall>eb name. take_map P eb name = map_option (\<lambda>k. (k, without_map name eb)) (map_of (obj_maps eb) name)) \<and>
     (\<forall>n k. is_ok (try_array P n k) \<longleftrightarrow> (\<exists>entries. k = Array_kind n entries)) \<and>
     (\<forall>name. prog_load P name = Inr () \<longrightarrow> is_ok (prog_fd P name)) \<and>
     (\<forall>eb name. map_mut P eb name = map_of (obj_maps eb) name) \<and>
     (\<forall>n v k. is_ok (try_hash P n v k) \<longleftrightarrow> (\<exists>entries. k = Hash_kind n v entries \<or> k = Lru_hash_kind n v entries)) \<and>
     (\<forall>k. is_ok (try_ring_buf P k) \<longleftrightarrow> (\<exists>n. k = Ring_buf_kind n))"

section \<open>Tracing\<close>

datatype log_sink = Journald | Fmt_layer

text \<open>\<open>init_daemon_tracing\<close>: \<open>moat_log\<close> is the filter parsed from \<open>MOAT_LOG\<close>, \<open>moat_log_stdout\<close> whether
  \<open>MOAT_LOG_STDOUT\<close> is set, \<open>journald\<close> whether its socket can be opened.\<close>

definition init_daemon_tracing :: "string option \<Rightarrow> bool \<Rightarrow> bool \<Rightarrow> string \<times> log_sink" where
  "init_daemon_tracing moat_log moat_log_stdout journald =
     (let filt = (case moat_log of Some f \<Rightarrow> f | None \<Rightarrow> ''info'')
      in if \<not> moat_log_stdout \<and> journald then (filt, Journald) else (filt, Fmt_layer))"

section \<open>The start\<close>

definition XDP_PROG :: string where "XDP_PROG = ''moat_ingress''"
definition TC_PROG :: string where "TC_PROG = ''moat_egress''"

definition load_program :: "aya \<Rightarrow> ebpf \<Rightarrow> string \<Rightarrow> (prog_kind \<Rightarrow> (err, unit) result) \<Rightarrow> (err, unit) result" where
  "load_program P eb name try_into =
     (case program_mut P eb name of
        None \<Rightarrow> Inl (Io_error (''program '' @ name @ '' not found''))
      | Some k \<Rightarrow> rbind (try_into k) (\<lambda>_. prog_load P name))"

definition take_array :: "aya \<Rightarrow> string \<Rightarrow> nat \<Rightarrow> ebpf \<Rightarrow> (err, ebpf) result" where
  "take_array P name value_size eb =
     (case take_map P eb name of
        None \<Rightarrow> Inl (Map_error (name @ '' map missing''))
      | Some (k, eb') \<Rightarrow> rbind (try_array P value_size k) (\<lambda>_. Inr eb'))"

definition take_maps :: "aya \<Rightarrow> ebpf \<Rightarrow> (err, ebpf) result" where
  "take_maps P eb =
     rbind (take_array P ''RULES'' (size_of Rule_layout) eb) (\<lambda>eb.
     rbind (take_array P ''DEFAULT_POLICY'' 1 eb) (\<lambda>eb.
     take_array P ''CONFIG'' (size_of GlobalConfig_layout) eb))"

definition setup_event_drainer :: "aya \<Rightarrow> ebpf \<Rightarrow> (err, unit) result \<times> ebpf" where
  "setup_event_drainer P eb =
     (case take_map P eb ''EVENTS'' of
        None \<Rightarrow> (Inl (Map_error ''EVENTS map missing''), eb)
      | Some (k, eb') \<Rightarrow> (rbind (try_ring_buf P k) (\<lambda>_. async_fd P), eb'))"

text \<open>The machine as the start meets it: sysfs at the first attach, at the synchronisation (inside
  \<open>h_env\<close>) and at the watcher's first snapshot, and the system calls.\<close>

record machine =
  h_aya :: aya
  h_ifaces :: "string option"
  h_attach :: attach_env
  h_boot_net :: sysfs
  h_env :: denv
  h_watch_net :: sysfs
  h_sock :: sock_env
  h_sigterm :: "(err, unit) result"
  h_sigint :: "(err, unit) result"

record started =
  st_watch :: watcher
  st_ebpf :: ebpf
  st_drainer :: bool
  st_sock :: sock_state

text \<open>\<open>run_daemon\<close> up to its loop; \<open>names\<close> is the order in which the first snapshot is traversed, \<open>m\<close> the
  maps as the kernel creates them. The notification of systemd only logs its failure.\<close>

definition run_daemon :: "machine \<Rightarrow> string list \<Rightarrow> sock_state \<Rightarrow> fs \<Rightarrow> bpf_maps \<Rightarrow> (err, started) result" where
  "run_daemon H names sock files m =
     (let P = h_aya H in
      rbind (load_object P moatd_bpf) (\<lambda>eb.
        let eb = snd (logger_init P eb) in
        rbind (load_program P eb XDP_PROG (try_xdp P)) (\<lambda>_.
        rbind (load_program P eb TC_PROG (try_classifier P)) (\<lambda>_.
          let filt = iface_filter (h_ifaces H);
              (attached, m) = initial_attach (h_attach H) (h_boot_net H) filt (iface_snapshot (h_boot_net H)) names (Map.empty, m)
          in
          rbind (take_maps P eb) (\<lambda>eb.
            let (drainer, eb) = setup_event_drainer P eb in
            rbind (start_daemon (h_env H) (filter (\<lambda>n. attached n \<noteq> None) (remdups names)) files m) (\<lambda>w.
            case bind_control_socket (h_sock H) sock of
              (Inl e, _) \<Rightarrow> Inl e
            | (Inr _, states) \<Rightarrow>
                rbind (h_sigterm H) (\<lambda>_. rbind (h_sigint H) (\<lambda>_.
                  Inr \<lparr>st_watch = \<lparr>last_snapshot = iface_snapshot (h_watch_net H), attached_set = attached, shared = w\<rparr>,
                       st_ebpf = eb, st_drainer = is_ok drainer, st_sock = last states\<rparr>))))))))"

section \<open>Names and types agree\<close>

lemma without_map_simps [simp]:
  "programs (without_map n eb) = programs eb"
  "map_of (obj_maps (without_map n eb)) n' = (if n' = n then None else map_of (obj_maps eb) n')"
proof -
  have "map_of (filter (\<lambda>(k, _). k \<noteq> n) xs) n' = (if n' = n then None else map_of xs n')" for xs :: "(string \<times> map_kind) list"
    by (induction xs) auto
  then show "map_of (obj_maps (without_map n eb)) n' = (if n' = n then None else map_of (obj_maps eb) n')"
    by (simp add: without_map_def)
qed (simp add: without_map_def)

lemma is_ok_unit: "is_ok r \<longleftrightarrow> r = Inr ()" for r :: "(err, unit) result"
  by (simp add: is_ok_iff)

lemma aya_lawD:
  assumes "aya_law P"
  shows "load_object P eb = Inr eb' \<Longrightarrow> eb' = eb"
    and "program_mut P eb name = map_of (programs eb) name"
    and "try_xdp P Xdp_kind = Inr ()" and "try_classifier P Classifier_kind = Inr ()"
    and "take_map P eb name = map_option (\<lambda>k. (k, without_map name eb)) (map_of (obj_maps eb) name)"
    and "try_array P n (Array_kind n entries) = Inr ()" and "try_ring_buf P (Ring_buf_kind n) = Inr ()"
    and "name \<noteq> ''AYA_LOGS'' \<Longrightarrow> map_of (obj_maps (snd (logger_init P eb))) name = map_of (obj_maps eb) name"
    and "programs (snd (logger_init P eb)) = programs eb"
    and "map_mut P eb name = map_of (obj_maps eb) name" and "try_hash P n v (Lru_hash_kind n v entries) = Inr ()"
    and "prog_load P name = Inr () \<Longrightarrow> is_ok (prog_fd P name)"
proof -
  have log: "snd (logger_init P eb) = eb \<or> snd (logger_init P eb) = without_map ''AYA_LOGS'' eb"
    using assms by (simp add: aya_law_def)
  show "name \<noteq> ''AYA_LOGS'' \<Longrightarrow> map_of (obj_maps (snd (logger_init P eb))) name = map_of (obj_maps eb) name"
    "programs (snd (logger_init P eb)) = programs eb" using log by auto
qed (use assms in \<open>simp_all add: aya_law_def flip: is_ok_unit\<close>)

text \<open>Taking an array that the object declares with the value size the loader expects.\<close>

lemma take_array_declared:
  "aya_law P \<Longrightarrow> map_of (obj_maps eb) name = Some (Array_kind n entries) \<Longrightarrow> take_array P name n eb = Inr (without_map name eb)"
  by (simp add: take_array_def aya_lawD)

lemma take_maps_declared:
  assumes "aya_law P" "map_of (obj_maps eb) ''RULES'' = Some (Array_kind (size_of Rule_layout) r)"
    "map_of (obj_maps eb) ''DEFAULT_POLICY'' = Some (Array_kind 1 d)"
    "map_of (obj_maps eb) ''CONFIG'' = Some (Array_kind (size_of GlobalConfig_layout) c)"
  shows "take_maps P eb = Inr (without_map ''CONFIG'' (without_map ''DEFAULT_POLICY'' (without_map ''RULES'' eb)))"
  using assms take_array_declared [OF assms(1)] by (simp add: take_maps_def)

lemma bind_control_socket_ok:
  assumes "mkdir_run X" "bind_sock X" "chmod_sock X" "sock_mode s = None \<or> probe_existing X = Refused \<and> remove_sock X"
  shows "\<exists>states. bind_control_socket X s = (Inr (), states) \<and> sock_mode (last states) = Some 432"
  using assms by (auto simp: bind_control_socket_def Let_def)

section \<open>Policy before readiness\<close>

lemma initial_attach_loads: "loads m (snd (initial_attach A S filt snap names (attached, m)))"
proof (induction names arbitrary: attached m)
  case (Cons name names)
  obtain r m' where a: "attach_to_iface A S name m = (r, m')" by fastforce
  then have "loads m m'" using attach_to_iface_loads [of m A S name] by simp
  with Cons.IH have "loads m (snd (initial_attach A S filt snap names (at, m')))" for at by (simp add: loads_def)
  with Cons.IH show ?case by (cases r) (auto simp: a split: option.split)
qed simp

text \<open>The rule set a start reads: the file's, or the defaults if there is none it can read.\<close>

definition file_rules :: "io_env \<Rightarrow> fs \<Rightarrow> on_disk" where
  "file_rules X files = (case load X files RULES_FILE of Inr od \<Rightarrow> od | Inl _ \<Rightarrow> on_disk_default)"

lemma start_daemon_sync:
  assumes "start_daemon E attached files m = Inr w"
  obtains w0 where "sync_all E w0 = (Inr (), w)" "ds_on_disk w0 = file_rules (io E) files" "active_bank w0 = 0" "kmaps w0 = m"
    "disk w0 = files" "ds_on_disk w = file_rules (io E) files" "disk w = files"
proof -
  let ?w = "\<lparr>attached_interfaces = attached, ds_on_disk = file_rules (io E) files, kmaps = m, active_bank = 0, disk = files, map_log = []\<rparr>"
  have run: "sync_all E ?w = (Inr (), w)"
    using assms by (auto simp: start_daemon_def file_rules_def Let_def split: prod.splits sum.splits)
  then have "ds_on_disk w = file_rules (io E) files" "disk w = files" using sync_frame(3,6) [of E ?w] by simp_all
  with that [OF run] show ?thesis by simp
qed

lemma start_daemon_in_force:
  assumes "start_daemon E attached files m = Inr w" "maps_ok E" "wf_on_disk (file_rules (io E) files)"
  shows "daemon_inv w" "in_force (net E) (ds_on_disk w) (kmaps w)" "is_ok (translate_rules (net E) (d_rules (ds_on_disk w)))"
    "loads m (kmaps w)" "ds_on_disk w = file_rules (io E) files" "disk w = files"
proof -
  obtain w0 where w0: "sync_all E w0 = (Inr (), w)" "ds_on_disk w0 = file_rules (io E) files" "active_bank w0 = 0" "kmaps w0 = m"
    "ds_on_disk w = file_rules (io E) files" "disk w = files"
    using start_daemon_sync [OF assms(1)] by metis
  have "in_force (net E) (ds_on_disk w0) (kmaps w)" "bank_consistent w"
    using sync_all_in_force [OF assms(2) _ _ w0(1)] assms(3) w0(2,3) by (simp_all add: wf_on_disk_def bank_ok_def)
  with assms(3) w0 sync_all_translates [OF w0(1)] loaderD(1) [OF loader_sync_all, of w0 E]
  show "daemon_inv w" "in_force (net E) (ds_on_disk w) (kmaps w)" "is_ok (translate_rules (net E) (d_rules (ds_on_disk w)))"
    "loads m (kmaps w)" "ds_on_disk w = file_rules (io E) files" "disk w = files"
    by (simp_all add: daemon_inv_def bank_consistent_def)
qed

lemma start_daemon_succeeds:
  assumes "maps_total E" "is_ok (translate_rules (net E) (d_rules (file_rules (io E) files)))"
  shows "\<exists>w. start_daemon E attached files m = Inr w"
proof -
  let ?w = "\<lparr>attached_interfaces = attached, ds_on_disk = file_rules (io E) files, kmaps = m, active_bank = 0, disk = files, map_log = []\<rparr>"
  obtain rs where "translate_rules (net E) (d_rules (ds_on_disk ?w)) = Inr rs" using assms(2) by (auto simp: is_ok_iff)
  then obtain w where "sync_all E ?w = (Inr (), w)"
    using sync_all_succeeds [OF assms(1), of ?w rs] by (auto simp: bank_ok_def)
  then show ?thesis by (simp add: start_daemon_def file_rules_def Let_def)
qed

text \<open>What a start that reaches the loop has done.\<close>

lemma run_daemon_started:
  assumes "run_daemon H names sock files m = Inr st"
  obtains attached m1 ns states where
    "initial_attach (h_attach H) (h_boot_net H) (iface_filter (h_ifaces H)) (iface_snapshot (h_boot_net H)) names (Map.empty, m) = (attached, m1)"
    "start_daemon (h_env H) ns files m1 = Inr (shared (st_watch st))"
    "last_snapshot (st_watch st) = iface_snapshot (h_watch_net H)" "attached_set (st_watch st) = attached"
    "bind_control_socket (h_sock H) sock = (Inr (), states)" "st_sock st = last states"
proof -
  obtain attached m1 where i: "initial_attach (h_attach H) (h_boot_net H) (iface_filter (h_ifaces H))
      (iface_snapshot (h_boot_net H)) names (Map.empty, m) = (attached, m1)" by fastforce
  obtain r states where b: "bind_control_socket (h_sock H) sock = (r, states)" by fastforce
  with assms have "r = Inr ()" by (cases r) (auto simp: run_daemon_def Let_def split: prod.splits)
  with assms i b have run: "start_daemon (h_env H) (filter (\<lambda>n. attached n \<noteq> None) (remdups names)) files m1 = Inr (shared (st_watch st))"
    "last_snapshot (st_watch st) = iface_snapshot (h_watch_net H)" "attached_set (st_watch st) = attached" "st_sock st = last states"
    by (auto simp: run_daemon_def Let_def split_beta)
  show ?thesis using that [OF i run(1-3) _ run(4)] b \<open>r = Inr ()\<close> by simp
qed

section \<open>Properties\<close>

text \<open>A machine for the examples: aya as documented, a stale socket directory, no rules file.\<close>

definition sample_aya :: aya where
  "sample_aya =
     \<lparr>load_object = Inr, logger_init = (\<lambda>eb. (Inr (), without_map ''AYA_LOGS'' eb)),
      program_mut = (\<lambda>eb name. map_of (programs eb) name),
      try_xdp = (\<lambda>k. if k = Xdp_kind then Inr () else Inl (Io_error ''unexpected program type'')),
      try_classifier = (\<lambda>k. if k = Classifier_kind then Inr () else Inl (Io_error ''unexpected program type'')),
      prog_load = (\<lambda>_. Inr ()), prog_fd = (\<lambda>_. Inr 5), map_mut = (\<lambda>eb name. map_of (obj_maps eb) name),
      take_map = (\<lambda>eb name. map_option (\<lambda>k. (k, without_map name eb)) (map_of (obj_maps eb) name)),
      try_array = (\<lambda>n k. case k of Array_kind n' _ \<Rightarrow> if n' = n then Inr () else Inl (Map_error ''value size'') | _ \<Rightarrow> Inl (Map_error ''type'')),
      try_hash = (\<lambda>n v k. case k of
          Hash_kind n' v' _ \<Rightarrow> if n' = n \<and> v' = v then Inr () else Inl (Map_error ''key or value size'')
        | Lru_hash_kind n' v' _ \<Rightarrow> if n' = n \<and> v' = v then Inr () else Inl (Map_error ''key or value size'')
        | _ \<Rightarrow> Inl (Map_error ''type'')),
      try_ring_buf = (\<lambda>k. case k of Ring_buf_kind _ \<Rightarrow> Inr () | _ \<Rightarrow> Inl (Map_error ''type'')),
      async_fd = Inr ()\<rparr>"

lemma sample_aya_law: "aya_law sample_aya"
  by (simp add: aya_law_def sample_aya_def split: map_kind.split)

definition sample_host :: machine where
  "sample_host =
     \<lparr>h_aya = sample_aya, h_ifaces = Some ''eth0, wg0'', h_attach = no_attach, h_boot_net = sample_sysfs ''up'', h_env = sample_env,
      h_watch_net = sample_sysfs ''up'', h_sock = stale_env\<lparr>chmod_sock := True\<rparr>, h_sigterm = Inr (), h_sigint = Inr ()\<rparr>"

definition no_socket :: sock_state where
  "no_socket = \<lparr>dir_mode = None, sock_mode = None, umask = 18\<rparr>"

lemma no_file_rules: "file_rules X Map.empty = on_disk_default"
  by (simp add: file_rules_def load_def on_disk_default_def)

text \<open>
  Property C14. The loader and the eBPF crate agree on their interface, so the daemon starts: with the
  object that the eBPF crate declares and an aya that does what it documents, every program and every
  map is found under the name and with the type and value size the loader asks for; if
  moreover the kernel accepts the programs, the rules of the file translate, map updates in
  range succeed and the socket can be bound, the start reaches the service loop, the block log is
  drained, and the map of link-layer offsets is still there for the watcher.
\<close>

theorem daemon_starts:
  assumes "aya_law (h_aya H)" and "load_object (h_aya H) moatd_bpf = Inr eb"
    and "prog_load (h_aya H) ''moat_ingress'' = Inr ()" and "prog_load (h_aya H) ''moat_egress'' = Inr ()"
    and "async_fd (h_aya H) = Inr ()" and "h_sigterm H = Inr ()" and "h_sigint H = Inr ()"
    and "maps_total (h_env H)" and "is_ok (translate_rules (net (h_env H)) (d_rules (file_rules (io (h_env H)) files)))"
    and "mkdir_run (h_sock H)" and "bind_sock (h_sock H)" and "chmod_sock (h_sock H)"
    and "sock_mode sock = None \<or> probe_existing (h_sock H) = Refused \<and> remove_sock (h_sock H)"
  shows "\<exists>st. run_daemon H names sock files m = Inr st \<and> st_drainer st \<and>
    map_of (obj_maps (st_ebpf st)) ''IFACE_L2'' = Some (Hash_kind 4 1 64)"
proof -
  let ?P = "h_aya H" and ?eb = "snd (logger_init (h_aya H) moatd_bpf)"
  note law = aya_lawD [OF assms(1)]
  have eb: "eb = moatd_bpf" using law(1) assms(2) .
  have progs: "load_program ?P ?eb XDP_PROG (try_xdp ?P) = Inr ()" "load_program ?P ?eb TC_PROG (try_classifier ?P) = Inr ()"
    using assms(3,4) by (simp_all add: load_program_def law XDP_PROG_def TC_PROG_def) (simp_all add: moatd_bpf_def law)
  have declared: "map_of (obj_maps ?eb) n = map_of (obj_maps moatd_bpf) n" if "n \<noteq> ''AYA_LOGS''" for n
    using law(8) that .
  let ?left = "without_map ''CONFIG'' (without_map ''DEFAULT_POLICY'' (without_map ''RULES'' ?eb))"
  have maps: "take_maps ?P ?eb = Inr ?left"
    by (rule take_maps_declared [OF assms(1)]) (simp_all add: declared, simp_all add: moatd_bpf_def)
  have drain: "setup_event_drainer ?P ?left = (Inr (), without_map ''EVENTS'' ?left)"
    using assms(5) by (simp add: setup_event_drainer_def law(5) declared) (simp add: moatd_bpf_def law)
  obtain attached m1 where i: "initial_attach (h_attach H) (h_boot_net H) (iface_filter (h_ifaces H))
      (iface_snapshot (h_boot_net H)) names (Map.empty, m) = (attached, m1)" by fastforce
  obtain w where w: "start_daemon (h_env H) (filter (\<lambda>n. attached n \<noteq> None) (remdups names)) files m1 = Inr w"
    using start_daemon_succeeds [OF assms(8,9)] by blast
  obtain states where b: "bind_control_socket (h_sock H) sock = (Inr (), states)"
    using bind_control_socket_ok [OF assms(10-13)] by blast
  have "map_of (obj_maps (without_map ''EVENTS'' ?left)) ''IFACE_L2'' = Some (Hash_kind 4 1 64)"
    by (simp add: declared) (simp add: moatd_bpf_def)
  with progs maps drain i w b assms(2,6,7) show ?thesis by (simp add: run_daemon_def Let_def eb)
qed

theorem daemon_starts_witness:
  "\<exists>st. run_daemon sample_host [''eth0''] no_socket Map.empty closed_maps = Inr st \<and> st_drainer st"
proof -
  have "is_ok (translate_rules (net sample_env) (d_rules (file_rules (io sample_env) Map.empty)))"
    unfolding no_file_rules by (simp add: on_disk_default_def)
  then show ?thesis
    using daemon_starts [of sample_host moatd_bpf Map.empty no_socket "[''eth0'']" closed_maps] sample_aya_law
    by (simp add: sample_host_def stale_env_def no_socket_def) (auto simp: sample_aya_def)
qed

lemma sample_host_starts:
  assumes "maps_total E"
  shows "\<exists>st. run_daemon (sample_host\<lparr>h_env := E\<rparr>) [''eth0''] no_socket Map.empty closed_maps = Inr st"
proof -
  obtain w where "start_daemon E [] Map.empty closed_maps = Inr w"
    using start_daemon_succeeds [OF assms, of Map.empty] by (auto simp: no_file_rules on_disk_default_def)
  then show ?thesis
    by (simp add: run_daemon_def sample_host_def sample_aya_def load_program_def take_maps_def take_array_def setup_event_drainer_def
        moatd_bpf_def XDP_PROG_def TC_PROG_def without_map_def no_attach_def attach_to_iface_def attach_xdp_with_fallback_def
        bind_control_socket_def no_socket_def stale_env_def Let_def split: option.split)
qed



end
