(* ===== verification/Service.thy ===== *)
theory Service
  imports Startup
begin

text \<open>
  The running daemon as concurrent tasks (\<open>src/crates/moatd/src/bin/moatd.rs\<close>): the loop of
  \<open>run_daemon\<close> accepts connections and spawns a task per client (\<open>serve_client\<close>), the link
  watcher polls (\<open>watch_interfaces\<close>), the drainer empties the ring buffer (\<open>drain_events\<close>), and
  the eBPF programs run on every packet. A task runs from one \<open>await\<close> to the next, and what
  it does while it holds the mutex around \<open>DaemonState\<close> is one step; between any two steps of a task all
  others may run. A run is a list of such steps, in any order that the tasks allow; \<open>served\<close>
  records the requests in the order in which they held the mutex. A daemon whose ring buffer could not
  be opened has no drainer: its runs are those without the drainer's steps.
\<close>

section \<open>Tasks\<close>

type_synonym snapshot = "string \<Rightarrow> (u32 \<times> bool) option"

text \<open>A client task: waiting for its request, for the mutex, for the write of its response, or done.\<close>

datatype client =
    Reading
  | Locking request
  | Replying response
  | Closed "(err, u8 list) result"

text \<open>The watcher: between ticks, or in a poll with the snapshot it took and the names left to visit;
  \<open>Pushing\<close> waits for the mutex after an attach, \<open>Checking\<close> before the test whether the change
  touches a rule, \<open>Syncing\<close> before the synchronisation.\<close>

datatype watch_pc =
    Idle
  | Attaching snapshot "string list"
  | Pushing snapshot string "string list"
  | Checking snapshot
  | Syncing snapshot

record service =
  watch :: watcher
  pc :: watch_pc
  clients :: "nat \<Rightarrow> client option"
  drainer :: "string list \<times> dedupe_window"
  served :: "(nat \<times> request \<times> response) list"
  running :: bool

datatype event =
    Accept nat
  | Accept_failed
  | Read_request nat "u8 list"
  | Read_timeout nat
  | Lock nat denv
  | Write_response nat
  | Write_timeout nat
  | Poll sysfs "string list"
  | Attach attach_env sysfs
  | Push
  | Compare
  | Check
  | Resync denv
  | Packet_in packet_ctx
  | Packet_out packet_ctx
  | Lru_evict conn_key
  | Ring_readable
  | Log_tick
  | Stop_signal

fun enabled :: "event \<Rightarrow> service \<Rightarrow> bool" where
  "enabled (Accept i) s \<longleftrightarrow> running s \<and> clients s i = None"
| "enabled (Read_request i bs) s \<longleftrightarrow> running s \<and> clients s i = Some Reading"
| "enabled (Read_timeout i) s \<longleftrightarrow> running s \<and> clients s i = Some Reading"
| "enabled (Lock i E) s \<longleftrightarrow> running s \<and> (case clients s i of Some (Locking _) \<Rightarrow> True | _ \<Rightarrow> False)"
| "enabled (Write_response i) s \<longleftrightarrow> running s \<and> (case clients s i of Some (Replying _) \<Rightarrow> True | _ \<Rightarrow> False)"
| "enabled (Write_timeout i) s \<longleftrightarrow> running s \<and> (case clients s i of Some (Replying _) \<Rightarrow> True | _ \<Rightarrow> False)"
| "enabled (Poll S names) s \<longleftrightarrow> running s \<and> pc s = Idle"
| "enabled (Attach A S) s \<longleftrightarrow> running s \<and> (case pc s of Attaching _ (_ # _) \<Rightarrow> True | _ \<Rightarrow> False)"
| "enabled Push s \<longleftrightarrow> running s \<and> (case pc s of Pushing _ _ _ \<Rightarrow> True | _ \<Rightarrow> False)"
| "enabled Compare s \<longleftrightarrow> running s \<and> (case pc s of Attaching _ [] \<Rightarrow> True | _ \<Rightarrow> False)"
| "enabled Check s \<longleftrightarrow> running s \<and> (case pc s of Checking _ \<Rightarrow> True | _ \<Rightarrow> False)"
| "enabled (Resync E) s \<longleftrightarrow> running s \<and> (case pc s of Syncing _ \<Rightarrow> True | _ \<Rightarrow> False)"
| "enabled _ s \<longleftrightarrow> running s"

section \<open>Steps\<close>

definition put_shared :: "daemon_state \<Rightarrow> service \<Rightarrow> service" where
  "put_shared w s = s\<lparr>watch := (watch s)\<lparr>shared := w\<rparr>\<rparr>"

definition on_maps :: "(bpf_maps \<Rightarrow> bpf_maps) \<Rightarrow> service \<Rightarrow> service" where
  "on_maps f s = put_shared ((shared (watch s))\<lparr>kmaps := f (kmaps (shared (watch s)))\<rparr>) s"

definition set_client :: "nat \<Rightarrow> client \<Rightarrow> service \<Rightarrow> service" where
  "set_client i c s = s\<lparr>clients := (clients s)(i \<mapsto> c)\<rparr>"

text \<open>The sections of \<open>serve_client\<close>.\<close>

definition client_read :: "json \<Rightarrow> u8 list \<Rightarrow> client" where
  "client_read J bs =
     (case rbind (read_frame bs) (\<lambda>(bytes, _). request_of_json J bytes) of
        Inl e \<Rightarrow> Closed (Inl e)
      | Inr req \<Rightarrow> Locking req)"

definition client_lock :: "denv \<Rightarrow> nat \<Rightarrow> request \<Rightarrow> service \<Rightarrow> service" where
  "client_lock E i req s =
     (case dispatch E req (shared (watch s)) of (resp, w) \<Rightarrow>
        (set_client i (Replying resp) (put_shared w s))\<lparr>served := served s @ [(i, req, resp)]\<rparr>)"

definition client_write :: "json \<Rightarrow> response \<Rightarrow> client" where
  "client_write J resp = Closed (rbind (response_to_json J resp) write_frame)"

definition client_write_timeout :: "json \<Rightarrow> response \<Rightarrow> client" where
  "client_write_timeout J resp = Closed (rbind (response_to_json J resp) (\<lambda>_. Inl (Io_error ''client write timed out'')))"

text \<open>The sections of a poll of \<open>watch_interfaces\<close>.\<close>

definition watch_attach :: "attach_env \<Rightarrow> sysfs \<Rightarrow> (string \<Rightarrow> bool) \<Rightarrow> snapshot \<Rightarrow> string \<Rightarrow> string list \<Rightarrow> service \<Rightarrow> service" where
  "watch_attach A S filt cur name names s =
     (case cur name of
        None \<Rightarrow> s\<lparr>pc := Attaching cur names\<rparr>
      | Some (ifindex, _) \<Rightarrow>
          if \<not> filt name \<or> attached_set (watch s) name = Some ifindex then s\<lparr>pc := Attaching cur names\<rparr>
          else (case attach_to_iface A S name (kmaps (shared (watch s))) of
                  (Inl _, m) \<Rightarrow> (on_maps (\<lambda>_. m) s)\<lparr>pc := Attaching cur names\<rparr>
                | (Inr _, m) \<Rightarrow>
                    let s = on_maps (\<lambda>_. m) s
                    in s\<lparr>watch := (watch s)\<lparr>attached_set := (attached_set (watch s))(name \<mapsto> ifindex)\<rparr>, pc := Pushing cur name names\<rparr>))"

definition watch_push :: "snapshot \<Rightarrow> string \<Rightarrow> string list \<Rightarrow> service \<Rightarrow> service" where
  "watch_push cur name names s =
     (let w = shared (watch s);
          w = (if name \<in> set (attached_interfaces w) then w else w\<lparr>attached_interfaces := attached_interfaces w @ [name]\<rparr>)
      in (put_shared w s)\<lparr>pc := Attaching cur names\<rparr>)"

definition watch_compare :: "snapshot \<Rightarrow> service \<Rightarrow> service" where
  "watch_compare cur s = s\<lparr>pc := (if cur = last_snapshot (watch s) then Idle else Checking cur)\<rparr>"

definition watch_done :: "snapshot \<Rightarrow> service \<Rightarrow> service" where
  "watch_done cur s = s\<lparr>watch := (watch s)\<lparr>last_snapshot := cur\<rparr>, pc := Idle\<rparr>"

definition watch_check :: "snapshot \<Rightarrow> service \<Rightarrow> service" where
  "watch_check cur s =
     (if touches_rules (last_snapshot (watch s)) cur (d_rules (ds_on_disk (shared (watch s))))
      then s\<lparr>pc := Syncing cur\<rparr> else watch_done cur s)"

definition watch_sync :: "denv \<Rightarrow> snapshot \<Rightarrow> service \<Rightarrow> service" where
  "watch_sync E cur s = watch_done cur (put_shared (snd (sync_rules E (shared (watch s)))) s)"

text \<open>One readable wake-up of \<open>drain_events\<close>: the records of the ring buffer as bytes.\<close>

definition drain_ring :: "(u32 \<Rightarrow> u8 list option) \<Rightarrow> service \<Rightarrow> service" where
  "drain_ring X s =
     (on_maps (\<lambda>m. m\<lparr>EVENTS := []\<rparr>) s)\<lparr>drainer :=
        drain_step X (Readable (map (as_bytes DropEvent_layout drop_event_val) (EVENTS (kmaps (shared (watch s)))))) (drainer s)\<rparr>"

record world =
  w_json :: json
  w_kernel :: kernel
  w_filter :: "string \<Rightarrow> bool"
  w_indextoname :: "u32 \<Rightarrow> u8 list option"

fun step :: "world \<Rightarrow> event \<Rightarrow> service \<Rightarrow> service" where
  "step W (Accept i) s = set_client i Reading s"
| "step W Accept_failed s = s"
| "step W (Read_request i bs) s = set_client i (client_read (w_json W) bs) s"
| "step W (Read_timeout i) s = set_client i (Closed (Inl (Io_error ''client read timed out''))) s"
| "step W (Lock i E) s = (case clients s i of Some (Locking req) \<Rightarrow> client_lock E i req s | _ \<Rightarrow> s)"
| "step W (Write_response i) s =
     (case clients s i of Some (Replying resp) \<Rightarrow> set_client i (client_write (w_json W) resp) s | _ \<Rightarrow> s)"
| "step W (Write_timeout i) s =
     (case clients s i of Some (Replying resp) \<Rightarrow> set_client i (client_write_timeout (w_json W) resp) s | _ \<Rightarrow> s)"
| "step W (Poll S names) s = s\<lparr>pc := Attaching (iface_snapshot S) names\<rparr>"
| "step W (Attach A S) s =
     (case pc s of Attaching cur (name # names) \<Rightarrow> watch_attach A S (w_filter W) cur name names s | _ \<Rightarrow> s)"
| "step W Push s = (case pc s of Pushing cur name names \<Rightarrow> watch_push cur name names s | _ \<Rightarrow> s)"
| "step W Compare s = (case pc s of Attaching cur [] \<Rightarrow> watch_compare cur s | _ \<Rightarrow> s)"
| "step W Check s = (case pc s of Checking cur \<Rightarrow> watch_check cur s | _ \<Rightarrow> s)"
| "step W (Resync E) s = (case pc s of Syncing cur \<Rightarrow> watch_sync E cur s | _ \<Rightarrow> s)"
| "step W (Packet_in y) s = on_maps (dp_step (w_kernel W) (Ingress y)) s"
| "step W (Packet_out y) s = on_maps (dp_step (w_kernel W) (Egress y)) s"
| "step W (Lru_evict k) s = on_maps (dp_step (w_kernel W) (Evict k)) s"
| "step W Ring_readable s = drain_ring (w_indextoname W) s"
| "step W Log_tick s = s\<lparr>drainer := drain_step (w_indextoname W) Tick (drainer s)\<rparr>"
| "step W Stop_signal s = s\<lparr>running := False\<rparr>"

text \<open>\<open>service_run W s0 h s\<close>: from \<open>s0\<close>, the steps \<open>h\<close>, each with the state it found, lead to \<open>s\<close>.\<close>

inductive service_run :: "world \<Rightarrow> service \<Rightarrow> (event \<times> service) list \<Rightarrow> service \<Rightarrow> bool"
  for W s0 where
  run_start: "service_run W s0 [] s0"
| run_more: "service_run W s0 h s \<Longrightarrow> enabled e s \<Longrightarrow> service_run W s0 (h @ [(e, s)]) (step W e s)"

text \<open>The service when \<open>run_daemon\<close> enters its loop.\<close>

definition serving :: "watcher \<Rightarrow> service" where
  "serving x = \<lparr>watch = x, pc = Idle, clients = Map.empty, drainer = ([], []), served = [], running = True\<rparr>"

section \<open>Frames\<close>

lemmas service_defs = put_shared_def on_maps_def set_client_def client_lock_def watch_attach_def watch_push_def
  watch_compare_def watch_done_def watch_check_def watch_sync_def drain_ring_def

text \<open>Which steps change which part of the service.\<close>

fun client_of :: "event \<Rightarrow> nat option" where
  "client_of (Accept i) = Some i"
| "client_of (Read_request i bs) = Some i"
| "client_of (Read_timeout i) = Some i"
| "client_of (Lock i E) = Some i"
| "client_of (Write_response i) = Some i"
| "client_of (Write_timeout i) = Some i"
| "client_of _ = None"

lemma step_other_clients: "client_of e \<noteq> Some i \<Longrightarrow> clients (step W e s) i = clients s i"
  by (cases e) (auto simp: service_defs Let_def split: option.split client.split watch_pc.split list.split prod.split sum.split)

lemma step_served: "(\<And>i E. e \<noteq> Lock i E) \<Longrightarrow> served (step W e s) = served s"
  by (cases e) (auto simp: service_defs Let_def split: option.split client.split watch_pc.split list.split prod.split sum.split)

section \<open>Clients\<close>

text \<open>What the abstract daemon may answer.\<close>

fun answers :: "request \<Rightarrow> on_disk \<Rightarrow> response \<Rightarrow> bool" where
  "answers Req_Ping od resp \<longleftrightarrow> resp = Resp_Pong"
| "answers Req_ListRules od resp \<longleftrightarrow> resp = Resp_Rules (d_rules od)"
| "answers Req_Status od resp \<longleftrightarrow>
     (case resp of
        Resp_Status r \<Rightarrow> s_active r \<and> s_rules r = of_nat (length (d_rules od)) \<and> s_schema_version r = SCHEMA_VERSION \<and>
          s_default_in r = d_default_in od \<and> s_default_out r = d_default_out od \<and> s_logging_enabled r = d_logging_enabled od
      | _ \<Rightarrow> False)"
| "answers req od resp \<longleftrightarrow> (case resp of Resp_Ok \<Rightarrow> accepts req od | Resp_Err _ \<Rightarrow> True | _ \<Rightarrow> False)"

text \<open>A sequential history of the abstract daemon, and the rule set it leads to.\<close>

fun legal :: "on_disk \<Rightarrow> (nat \<times> request \<times> response) list \<Rightarrow> bool" where
  "legal od [] \<longleftrightarrow> True"
| "legal od ((i, req, resp) # xs) \<longleftrightarrow> answers req od resp \<and> legal (spec_step req od) xs"

definition after :: "(nat \<times> request \<times> response) list \<Rightarrow> on_disk \<Rightarrow> on_disk" where
  "after xs od = fold (\<lambda>(i, req, resp). spec_step req) xs od"

lemma legal_snoc: "legal od (xs @ [(i, req, resp)]) \<longleftrightarrow> legal od xs \<and> answers req (after xs od) resp"
  by (induction od xs rule: legal.induct) (simp_all add: after_def)

lemma to_response_shape: "to_response x = (resp, w) \<Longrightarrow> resp = Resp_Ok \<or> (\<exists>e. resp = Resp_Err e)"
  using to_response_cases [of x] by auto

lemma dispatch_answers:
  assumes "dispatch E req w = (resp, w')"
  shows "answers req (ds_on_disk w) resp" "ds_on_disk w' = spec_step req (ds_on_disk w)"
proof -
  show "ds_on_disk w' = spec_step req (ds_on_disk w)"
    using serve_on_disk [of "(E, req)" w] assms by (simp add: serve_def)
  show "answers req (ds_on_disk w) resp"
  proof (cases "accepts req (ds_on_disk w)")
    case True
    from to_response_cases [of "persist_and_sync E (update_on_disk (spec_step req) w)"] show ?thesis
      using assms True unfolding dispatch_accepted [OF True] by (cases req) auto
  next
    case False
    then have "resp \<noteq> Resp_Ok" using dispatch_not_accepted(3) [OF False, of E] assms by simp
    then show ?thesis using assms False by (cases req) (auto simp: status_of_def dest!: to_response_shape)
  qed
qed

lemma step_on_disk:
  "ds_on_disk (shared (watch (step W e s))) =
     (case e of Lock i E \<Rightarrow> (case clients s i of Some (Locking req) \<Rightarrow> spec_step req (ds_on_disk (shared (watch s))) | _ \<Rightarrow> ds_on_disk (shared (watch s)))
      | _ \<Rightarrow> ds_on_disk (shared (watch s)))"
  by (cases e) (auto simp: service_defs Let_def dispatch_answers(2) simp del: dispatch.simps
      split: option.split client.split watch_pc.split list.split prod.split sum.split)

text \<open>Every request in the order of the mutex is one that its client sent.\<close>

definition asked :: "json \<Rightarrow> (event \<times> service) list \<Rightarrow> nat \<Rightarrow> request \<Rightarrow> bool" where
  "asked J h i req \<longleftrightarrow> (\<exists>bs s. (Read_request i bs, s) \<in> set h \<and> client_read J bs = Locking req)"

text \<open>What a client task knows of the order of the mutex.\<close>

definition client_ok :: "json \<Rightarrow> (event \<times> service) list \<Rightarrow> (nat \<times> request \<times> response) list \<Rightarrow> nat \<Rightarrow> client option \<Rightarrow> bool" where
  "client_ok J h log i c \<longleftrightarrow>
     (case c of
        None \<Rightarrow> i \<notin> fst ` set log
      | Some Reading \<Rightarrow> i \<notin> fst ` set log
      | Some (Locking req) \<Rightarrow> i \<notin> fst ` set log \<and> asked J h i req
      | Some (Replying resp) \<Rightarrow> \<exists>req. (i, req, resp) \<in> set log
      | Some (Closed (Inl e)) \<Rightarrow> True
      | Some (Closed (Inr bs)) \<Rightarrow> \<exists>req resp. (i, req, resp) \<in> set log \<and> rbind (response_to_json J resp) write_frame = Inr bs)"

definition linear_inv :: "world \<Rightarrow> on_disk \<Rightarrow> (event \<times> service) list \<Rightarrow> service \<Rightarrow> bool" where
  "linear_inv W od h s \<longleftrightarrow>
     distinct (map fst (served s)) \<and> legal od (served s) \<and> ds_on_disk (shared (watch s)) = after (served s) od \<and>
     (\<forall>(i, req, resp) \<in> set (served s). asked (w_json W) h i req) \<and>
     (\<forall>i. client_ok (w_json W) h (served s) i (clients s i))"

lemma client_okD:
  "client_ok J h log i c \<Longrightarrow> c = Some (Closed (Inr bs)) \<Longrightarrow>
   \<exists>req resp. (i, req, resp) \<in> set log \<and> rbind (response_to_json J resp) write_frame = Inr bs"
  by (simp add: client_ok_def)

lemma client_read_cases: "(\<exists>e. client_read J bs = Closed (Inl e)) \<or> (\<exists>req. client_read J bs = Locking req)"
  by (simp add: client_read_def split: sum.split)

lemma asked_mono: "asked J h i req \<Longrightarrow> asked J (h @ h') i req"
  by (auto simp: asked_def)

lemma client_ok_mono:
  "client_ok J h log i c \<Longrightarrow> set log \<subseteq> set log' \<Longrightarrow> i \<notin> fst ` (set log' - set log) \<Longrightarrow> client_ok J (h @ h') log' i c"
  unfolding client_ok_def by (auto split: option.splits client.splits sum.splits intro: asked_mono)

lemma linear_keep: "linear_inv W od h s \<Longrightarrow> client_ok (w_json W) (h @ h') (served s) i (clients s i)"
  using client_ok_mono [of "w_json W" h "served s" i "clients s i" "served s" h'] by (simp add: linear_inv_def)

text \<open>A client that gets the mutex is served next in the order.\<close>

lemma linear_lock:
  assumes inv: "linear_inv W od h s" and c: "clients s i = Some (Locking req)"
  shows "linear_inv W od (h @ [(Lock i E, s)]) (step W (Lock i E) s)"
proof -
  let ?J = "w_json W" and ?h = "h @ [(Lock i E, s)]" and ?t = "step W (Lock i E) s"
  obtain resp w where d: "dispatch E req (shared (watch s)) = (resp, w)" by fastforce
  have t: "served ?t = served s @ [(i, req, resp)]" "clients ?t = (clients s)(i \<mapsto> Replying resp)" "shared (watch ?t) = w"
    using c d by (simp_all add: client_lock_def set_client_def put_shared_def del: dispatch.simps)
  have "client_ok ?J h (served s) i (clients s i)" using inv by (simp add: linear_inv_def)
  then have new: "i \<notin> fst ` set (served s)" "asked ?J h i req" by (simp_all add: c client_ok_def)
  have "client_ok ?J ?h (served ?t) j (clients ?t j)" for j
  proof (cases "j = i")
    case False
    then have "j \<notin> fst ` (set (served ?t) - set (served s))" by (auto simp: t simp del: step.simps)
    from client_ok_mono [OF linear_keep [OF inv, of _ j] _ this, of _ "[]"] False show ?thesis
      by (auto simp: t simp del: step.simps)
  qed (auto simp: client_ok_def t simp del: step.simps)
  with inv new dispatch_answers [OF d] show ?thesis
    unfolding linear_inv_def t by (auto simp: legal_snoc after_def asked_mono)
qed

text \<open>Every other step of a client keeps what the client knows.\<close>

lemma client_ok_step:
  assumes "linear_inv W od h s" "enabled e s" "\<nexists>i E. e = Lock i E"
  shows "client_ok (w_json W) (h @ [(e, s)]) (served s) i (clients (step W e s) i)"
proof (cases "client_of e = Some i")
  case True
  note keep = linear_keep [OF assms(1), of "[(e, s)]" i]
  show ?thesis
  proof (cases "\<exists>bs. e = Read_request i bs")
    case True
    then obtain bs where "e = Read_request i bs" by blast
    with client_read_cases [of "w_json W" bs] keep assms(2) show ?thesis
      by (auto simp: client_ok_def set_client_def asked_def) blast
  next
    case False
    with True assms(3) keep assms(2) show ?thesis
      by (cases e) (auto simp: client_ok_def set_client_def client_write_def client_write_timeout_def
          split: option.splits client.splits sum.splits)
  qed
qed (simp add: step_other_clients linear_keep [OF assms(1)])

lemma linear_step:
  assumes "linear_inv W od h s" "enabled e s"
  shows "linear_inv W od (h @ [(e, s)]) (step W e s)"
proof (cases "\<exists>i E. e = Lock i E")
  case True
  with assms linear_lock show ?thesis by (auto simp del: step.simps split: option.splits client.splits)
next
  case False
  then have "served (step W e s) = served s" by (intro step_served) blast
  moreover have "ds_on_disk (shared (watch (step W e s))) = ds_on_disk (shared (watch s))"
    using False step_on_disk [of W e s] by (cases e) auto
  ultimately show ?thesis
    using assms(1) client_ok_step [OF assms] False unfolding linear_inv_def by (auto intro: asked_mono)
qed

lemma linear_run: "service_run W (serving x) h s \<Longrightarrow> linear_inv W (ds_on_disk (shared x)) h s"
proof (induction rule: service_run.induct)
  case run_start
  then show ?case by (simp add: linear_inv_def serving_def client_ok_def after_def)
next
  case (run_more h s e)
  then show ?case by (intro linear_step)
qed

section \<open>Tasks that run alone\<close>

text \<open>A connection that nothing interrupts is \<open>serve_client\<close>.\<close>

lemma client_alone:
  fixes W E i bs s
  defines "t \<equiv> fold (step W) [Accept i, Read_request i bs, Lock i E, Write_response i] s"
  assumes r: "serve_client (w_json W) E bs (shared (watch s)) = (r, w)"
  shows "clients t i = Some (Closed r) \<and> shared (watch t) = w"
proof -
  consider e where "rbind (read_frame bs) (\<lambda>(bytes, _). request_of_json (w_json W) bytes) = Inl e"
    | req where "rbind (read_frame bs) (\<lambda>(bytes, _). request_of_json (w_json W) bytes) = Inr req"
    by (cases "rbind (read_frame bs) (\<lambda>(bytes, _). request_of_json (w_json W) bytes)") blast+
  then show ?thesis
  proof cases
    case 1
    with r show ?thesis by (auto simp: t_def serve_client_def client_read_def set_client_def)
  next
    case 2
    obtain resp w1 where "dispatch E req (shared (watch s)) = (resp, w1)" by fastforce
    with 2 r show ?thesis
      by (auto simp: t_def serve_client_def client_read_def client_write_def client_lock_def set_client_def put_shared_def
          simp del: dispatch.simps rbind_eq_Inr)
  qed
qed

text \<open>A poll that nothing interrupts is \<open>watch_tick\<close>.\<close>

lemma attach_alone:
  "fold (step W) (concat (map (\<lambda>_. [Attach A S, Push]) names)) (s\<lparr>pc := Attaching cur names\<rparr>) =
   s\<lparr>watch := attach_new A S (w_filter W) cur names (watch s), pc := Attaching cur []\<rparr>"
proof (induction names arbitrary: s)
  case (Cons name names)
  obtain r m where a: "attach_to_iface A S name (kmaps (shared (watch s))) = (r, m)" by fastforce
  show ?case
  proof (cases "cur name = None \<or> (\<exists>ifindex up. cur name = Some (ifindex, up) \<and> (\<not> w_filter W name \<or> attached_set (watch s) name = Some ifindex))")
    case True
    then show ?thesis using Cons.IH [of s] by (auto simp: watch_attach_def)
  next
    case False
    then obtain ifindex up where c: "cur name = Some (ifindex, up)" "w_filter W name" "attached_set (watch s) name \<noteq> Some ifindex"
      by (cases "cur name") auto
    show ?thesis
    proof (cases r)
      case (Inl e)
      with c a Cons.IH [of "on_maps (\<lambda>_. m) s"] show ?thesis by (simp add: watch_attach_def on_maps_def put_shared_def)
    next
      case (Inr u)
      let ?w = "(shared (watch s))\<lparr>kmaps := m\<rparr>"
      let ?w' = "if name \<in> set (attached_interfaces ?w) then ?w else ?w\<lparr>attached_interfaces := attached_interfaces ?w @ [name]\<rparr>"
      let ?x = "(watch s)\<lparr>attached_set := (attached_set (watch s))(name \<mapsto> ifindex), shared := ?w'\<rparr>"
      from Inr c a Cons.IH [of "s\<lparr>watch := ?x\<rparr>"] show ?thesis
        by (simp add: watch_attach_def watch_push_def on_maps_def put_shared_def Let_def)
    qed
  qed
qed simp

lemma poll_alone:
  assumes "pc s = Idle"
  shows "fold (step W) (Poll (net E) names # concat (map (\<lambda>_. [Attach A (net E), Push]) names) @ [Compare, Check, Resync E]) s =
    s\<lparr>watch := watch_tick A E (w_filter W) names (watch s)\<rparr>"
  using assms attach_alone [where W = W and A = A and S = "net E" and names = names and s = s and cur = "iface_snapshot (net E)"]
  by (simp add: watch_tick_def watch_compare_def watch_check_def watch_sync_def watch_done_def put_shared_def Let_def)


section \<open>The policy stays in force\<close>

text \<open>The interfaces as the watcher saw them last: the snapshot of the poll it is in, or of the one
  before.\<close>

definition seen :: "service \<Rightarrow> snapshot" where
  "seen s = (case pc s of Idle \<Rightarrow> last_snapshot (watch s) | Attaching cur _ \<Rightarrow> cur | Pushing cur _ _ \<Rightarrow> cur
     | Checking cur \<Rightarrow> cur | Syncing cur \<Rightarrow> cur)"

text \<open>
  What the environment is assumed to do in a step: map updates behave as documented and
  succeed in range; a request that fails has been refused before it changed anything; and
  between two snapshots of the watcher the interfaces look to requests and to the
  synchronisation as they looked in the last one.
\<close>

fun healthy :: "event \<Rightarrow> service \<Rightarrow> bool" where
  "healthy (Lock i E) s \<longleftrightarrow> maps_ok E \<and> maps_total E \<and> sysfs_listed (net E) \<and> iface_snapshot (net E) = seen s \<and>
     (case clients s i of
        Some (Locking req) \<Rightarrow> (case dispatch E req (shared (watch s)) of (Resp_Err _, w) \<Rightarrow> w = shared (watch s) | _ \<Rightarrow> True)
      | _ \<Rightarrow> True)"
| "healthy (Poll S names) s \<longleftrightarrow> sysfs_listed S"
| "healthy (Resync E) s \<longleftrightarrow> maps_ok E \<and> maps_total E \<and> sysfs_listed (net E) \<and> iface_snapshot (net E) = seen s"
| "healthy _ s \<longleftrightarrow> True"

definition all_healthy :: "(event \<times> service) list \<Rightarrow> bool" where
  "all_healthy h = list_all (\<lambda>(e, s). healthy e s) h"

definition enforced :: "sysfs \<Rightarrow> service \<Rightarrow> bool" where
  "enforced S s \<longleftrightarrow> sysfs_listed S \<and> iface_snapshot S \<in> {last_snapshot (watch s), seen s} \<and>
     in_force S (ds_on_disk (shared (watch s))) (kmaps (shared (watch s)))"

definition service_inv :: "service \<Rightarrow> bool" where
  "service_inv s \<longleftrightarrow> daemon_inv (shared (watch s)) \<and> (\<exists>S. enforced S s) \<and> (\<exists>S. sysfs_listed S \<and> iface_snapshot S = seen s) \<and>
     (\<forall>S. is_ok (translate_rules S (d_rules (ds_on_disk (shared (watch s))))))"

text \<open>Steps that leave rule set, bank and policy tables alone.\<close>

definition same_tables :: "service \<Rightarrow> service \<Rightarrow> bool" where
  "same_tables s t \<longleftrightarrow> ds_on_disk (shared (watch t)) = ds_on_disk (shared (watch s)) \<and>
     active_bank (shared (watch t)) = active_bank (shared (watch s)) \<and>
     RULES (kmaps (shared (watch t))) = RULES (kmaps (shared (watch s))) \<and>
     CONFIG (kmaps (shared (watch t))) = CONFIG (kmaps (shared (watch s))) \<and>
     DEFAULT_POLICY (kmaps (shared (watch t))) = DEFAULT_POLICY (kmaps (shared (watch s)))"

lemma same_tables_inv:
  assumes "service_inv s" "same_tables s t" "seen t = seen s" "last_snapshot (watch t) = last_snapshot (watch s)"
  shows "service_inv t"
proof -
  have "in_force S od (kmaps (shared (watch t))) = in_force S od (kmaps (shared (watch s)))" for S od
    using assms(2) by (intro in_force_cong) (simp_all add: same_tables_def)
  with assms show ?thesis unfolding service_inv_def enforced_def same_tables_def daemon_inv_def by auto
qed

lemma lock_inv:
  assumes "service_inv s" "healthy (Lock i E) s" "clients s i = Some (Locking req)"
  shows "service_inv (client_lock E i req s)"
proof -
  obtain resp w where d: "dispatch E req (shared (watch s)) = (resp, w)" by fastforce
  let ?t = "client_lock E i req s"
  have t: "shared (watch ?t) = w" "seen ?t = seen s" "last_snapshot (watch ?t) = last_snapshot (watch s)"
    by (simp_all add: client_lock_def d set_client_def put_shared_def seen_def del: dispatch.simps split: watch_pc.split)
  have inv: "daemon_inv (shared (watch s))" using assms(1) by (simp add: service_inv_def)
  show ?thesis
  proof (cases "resp = Resp_Ok")
    case True
    with d have "dispatch E req (shared (watch s)) = (Resp_Ok, w)" by simp
    note eff = dispatch_ok_effect [OF _ inv this]
    have "enforced (net E) ?t" using assms(2) eff(2) by (simp add: enforced_def t)
    moreover have "is_ok (translate_rules S (d_rules (ds_on_disk w)))" for S
      using assms(2) eff(4) translate_rules_any_sysfs [of "net E"] by auto
    moreover have "\<exists>S. sysfs_listed S \<and> iface_snapshot S = seen s" using assms(2) by auto
    ultimately show ?thesis using dispatch_inv [OF inv d] by (auto simp: service_inv_def t)
  next
    case False
    then have "w = shared (watch s)"
      using assms(2,3) d dispatch_other_responses [OF d False] by (cases resp) (auto simp del: dispatch.simps)
    with t show ?thesis by (intro same_tables_inv [OF assms(1)]) (simp_all add: same_tables_def)
  qed
qed

lemma check_inv:
  assumes "service_inv s" "pc s = Checking cur"
  shows "service_inv (watch_check cur s)"
proof (cases "touches_rules (last_snapshot (watch s)) cur (d_rules (ds_on_disk (shared (watch s))))")
  case True
  then show ?thesis
    by (intro same_tables_inv [OF assms(1)]) (simp_all add: watch_check_def same_tables_def seen_def assms(2))
next
  case False
  obtain S S' where S: "sysfs_listed S" "iface_snapshot S \<in> {last_snapshot (watch s), cur}"
      "in_force S (ds_on_disk (shared (watch s))) (kmaps (shared (watch s)))"
    and S': "sysfs_listed S'" "iface_snapshot S' = cur"
    using assms by (auto simp: service_inv_def enforced_def seen_def)
  have "\<not> touches_rules (iface_snapshot S) (iface_snapshot S') (d_rules (ds_on_disk (shared (watch s))))"
    using S(2) S'(2) False equal_snapshots_touch_nothing by auto
  then have "in_force S' (ds_on_disk (shared (watch s))) (kmaps (shared (watch s)))"
    using S(3) in_force_resolved [OF unchanged_resolution [OF S(1) S'(1)]] by simp
  with assms(1) S' False show ?thesis
    by (auto simp: service_inv_def enforced_def seen_def watch_check_def watch_done_def)
qed

lemma sync_inv:
  assumes "service_inv s" "pc s = Syncing cur" "healthy (Resync E) s"
  shows "service_inv (watch_sync E cur s)"
proof -
  let ?w = "shared (watch s)"
  have inv: "daemon_inv ?w" using assms(1) by (simp add: service_inv_def)
  obtain S where S: "in_force S (ds_on_disk ?w) (kmaps ?w)" using assms(1) by (auto simp: service_inv_def enforced_def)
  obtain rs where "translate_rules (net E) (d_rules (ds_on_disk ?w)) = Inr rs"
    using assms(1) unfolding service_inv_def is_ok_iff by blast
  with assms(3) inv obtain w' where w': "sync_rules E ?w = (Inr (), w')"
    using sync_rules_succeeds [of E ?w rs] by (auto simp: daemon_inv_def)
  have od: "ds_on_disk w' = ds_on_disk ?w" using sync_frame(2) [of E ?w] by (simp add: w')
  have "in_force (net E) (ds_on_disk ?w) (kmaps w')"
    using sync_rules_in_force(1) [OF _ _ _ w'] assms(3) inv S by (simp add: daemon_inv_def wf_on_disk_def in_force_def)
  moreover have "bank_ok (active_bank w')" using sync_rules_bank [of ?w E] inv by (simp add: w' daemon_inv_def)
  ultimately show ?thesis
    using assms od inv
    by (auto simp: service_inv_def enforced_def seen_def watch_sync_def watch_done_def put_shared_def w' daemon_inv_def)
qed

lemma poll_inv:
  assumes "service_inv s" "pc s = Idle" "sysfs_listed S"
  shows "service_inv (s\<lparr>pc := Attaching (iface_snapshot S) names\<rparr>)"
  using assms by (auto simp: service_inv_def enforced_def seen_def)

lemma on_maps_tables:
  assumes "RULES (f (kmaps (shared (watch s)))) = RULES (kmaps (shared (watch s)))"
    "CONFIG (f (kmaps (shared (watch s)))) = CONFIG (kmaps (shared (watch s)))"
    "DEFAULT_POLICY (f (kmaps (shared (watch s)))) = DEFAULT_POLICY (kmaps (shared (watch s)))"
  shows "same_tables s (on_maps f s)" "seen (on_maps f s) = seen s" "last_snapshot (watch (on_maps f s)) = last_snapshot (watch s)"
  using assms by (simp_all add: same_tables_def on_maps_def put_shared_def seen_def split: watch_pc.split)

lemma attach_tables:
  assumes "pc s = Attaching cur (name # names)"
  shows "same_tables s (watch_attach A S filt cur name names s)" "seen (watch_attach A S filt cur name names s) = seen s"
    "last_snapshot (watch (watch_attach A S filt cur name names s)) = last_snapshot (watch s)"
proof -
  obtain r m where a: "attach_to_iface A S name (kmaps (shared (watch s))) = (r, m)" by fastforce
  have m: "RULES m = RULES (kmaps (shared (watch s)))" "CONFIG m = CONFIG (kmaps (shared (watch s)))"
    "DEFAULT_POLICY m = DEFAULT_POLICY (kmaps (shared (watch s)))"
    using attach_to_iface_frame [of A S name "kmaps (shared (watch s))"] by (simp_all add: a)
  show "same_tables s (watch_attach A S filt cur name names s)" "seen (watch_attach A S filt cur name names s) = seen s"
    "last_snapshot (watch (watch_attach A S filt cur name names s)) = last_snapshot (watch s)"
    using assms m
    by (auto simp: watch_attach_def a same_tables_def on_maps_def put_shared_def seen_def Let_def split: option.split sum.split)
qed

text \<open>The steps whose effect on the policy is not trivial have their own lemma.\<close>

lemma step_tables:
  assumes "\<And>i E. e \<noteq> Lock i E" "\<And>S ns. e \<noteq> Poll S ns" "\<And>E. e \<noteq> Resync E" "e \<noteq> Check"
  shows "same_tables s (step W e s) \<and> seen (step W e s) = seen s \<and> last_snapshot (watch (step W e s)) = last_snapshot (watch s)"
proof (cases e)
  case (Attach A S)
  show ?thesis
  proof (cases "\<exists>cur name names. pc s = Attaching cur (name # names)")
    case True
    then show ?thesis using attach_tables by (auto simp: Attach)
  next
    case False
    then have "step W e s = s" by (auto simp: Attach split: watch_pc.split list.split)
    then show ?thesis by (simp add: same_tables_def)
  qed
next
  case (Packet_in y)
  then show ?thesis using on_maps_tables [of "dp_step (w_kernel W) (Ingress y)" s] by simp
next
  case (Packet_out y)
  then show ?thesis using on_maps_tables [of "dp_step (w_kernel W) (Egress y)" s] by simp
next
  case (Lru_evict k)
  then show ?thesis using on_maps_tables [of "dp_step (w_kernel W) (Evict k)" s] by simp
next
  case Ring_readable
  then show ?thesis using on_maps_tables [of "\<lambda>m. m\<lparr>EVENTS := []\<rparr>" s]
    by (simp add: drain_ring_def same_tables_def seen_def split: watch_pc.splits)
qed (use assms in \<open>auto simp: same_tables_def seen_def set_client_def watch_push_def watch_compare_def put_shared_def Let_def
      split: option.split client.split watch_pc.split list.split\<close>)

lemma step_inv:
  assumes "service_inv s" "enabled e s" "healthy e s"
  shows "service_inv (step W e s)"
proof (cases "(\<exists>i E. e = Lock i E) \<or> (\<exists>S ns. e = Poll S ns) \<or> (\<exists>E. e = Resync E) \<or> e = Check")
  case True
  then consider i E where "e = Lock i E" | S ns where "e = Poll S ns" | E where "e = Resync E" | "e = Check" by blast
  then show ?thesis
  proof cases
    case 1
    with assms lock_inv show ?thesis by (auto simp del: healthy.simps split: option.splits client.splits)
  next
    case 2
    with assms poll_inv show ?thesis by simp
  next
    case 3
    with assms sync_inv show ?thesis by (auto simp del: healthy.simps split: watch_pc.splits)
  next
    case 4
    with assms check_inv show ?thesis by (auto split: watch_pc.splits)
  qed
next
  case False
  with step_tables [of e s W] show ?thesis by (blast intro: same_tables_inv [OF assms(1)])
qed

lemma service_run_inv: "service_run W s0 h s \<Longrightarrow> service_inv s0 \<Longrightarrow> all_healthy h \<Longrightarrow> service_inv s"
  by (induction rule: service_run.induct) (auto simp: all_healthy_def intro: step_inv)

section \<open>The data path inside the service\<close>

lemma step_loads:
  assumes "\<And>y. e \<noteq> Packet_in y" "\<And>y. e \<noteq> Packet_out y" "\<And>k. e \<noteq> Lru_evict k" "e \<noteq> Ring_readable"
  shows "loads (kmaps (shared (watch s))) (kmaps (shared (watch (step W e s))))"
proof (cases e)
  case (Lock i E)
  then show ?thesis
    using dispatch_loads(1) [of "shared (watch s)" E] 
    by (auto simp: client_lock_def set_client_def put_shared_def split_beta simp del: dispatch.simps split: option.split client.split)
next
  case (Attach A S)
  have "loads (kmaps (shared (watch s))) (kmaps (shared (watch (watch_attach A S filt cur name names s))))" for filt cur name names
    using attach_to_iface_loads [of "kmaps (shared (watch s))" A S name]
    by (auto simp: watch_attach_def on_maps_def put_shared_def Let_def split: option.split sum.split prod.split)
  then show ?thesis by (simp add: Attach split: watch_pc.split list.split)
next
  case (Resync E)
  then show ?thesis using loaderD(1) [OF loader_sync_rules, of "shared (watch s)" E]
    by (simp add: watch_sync_def watch_done_def put_shared_def split: watch_pc.split)
qed (use assms in \<open>auto simp: set_client_def watch_push_def watch_compare_def watch_check_def watch_done_def put_shared_def Let_def
      split: option.split client.split watch_pc.split list.split\<close>)

text \<open>A run of the service, as the data path sees it.\<close>

fun dp_of :: "world \<Rightarrow> event \<times> service \<Rightarrow> dp_event \<times> bpf_maps" where
  "dp_of W (Packet_in y, s) = (Ingress y, kmaps (shared (watch s)))"
| "dp_of W (Packet_out y, s) = (Egress y, kmaps (shared (watch s)))"
| "dp_of W (Lru_evict k, s) = (Evict k, kmaps (shared (watch s)))"
| "dp_of W (Ring_readable, s) = (Drain, kmaps (shared (watch s)))"
| "dp_of W (e, s) = (Load (kmaps (shared (watch (step W e s)))), kmaps (shared (watch s)))"

lemma snd_dp_of: "snd (dp_of W (e, s)) = kmaps (shared (watch s))"
  by (cases e) simp_all

lemma dp_of_step: "dp_step (w_kernel W) (fst (dp_of W (e, s))) (kmaps (shared (watch s))) = kmaps (shared (watch (step W e s)))"
proof (cases "(\<exists>y. e = Packet_in y) \<or> (\<exists>y. e = Packet_out y) \<or> (\<exists>k. e = Lru_evict k) \<or> e = Ring_readable")
  case True
  then show ?thesis by (auto simp: on_maps_def put_shared_def drain_ring_def)
next
  case False
  then have "fst (dp_of W (e, s)) = Load (kmaps (shared (watch (step W e s))))" by (cases e) simp_all
  with loads_dp_step [OF step_loads [of e s W]] False show ?thesis by auto
qed

lemma service_dp_run:
  "service_run W s0 h s \<Longrightarrow> dp_run (w_kernel W) (kmaps (shared (watch s0))) (map (dp_of W) h) (kmaps (shared (watch s)))"
proof (induction rule: service_run.induct)
  case run_start
  show ?case by (simp add: dp_start)
next
  case (run_more h s e)
  have "dp_of W (e, s) = (fst (dp_of W (e, s)), kmaps (shared (watch s)))" by (metis prod.collapse snd_dp_of)
  with dp_more [OF run_more.IH, of "fst (dp_of W (e, s))"] show ?case by (simp add: dp_of_step del: dp_of.simps)
qed

text \<open>The outbound packets of a run that were let through.\<close>

definition sent :: "world \<Rightarrow> (event \<times> service) list \<Rightarrow> conn_key \<Rightarrow> u64 \<Rightarrow> bool" where
  "sent W h k t \<longleftrightarrow>
     (\<exists>y s p. (Packet_out y, s) \<in> set h \<and> parse_ctx (w_kernel W) y (kmaps (shared (watch s))) = Some (Some p) \<and> \<not> is_ndp p \<and>
        forward_key p = k \<and> x_now y = t \<and> fst (moat_egress (w_kernel W) y (kmaps (shared (watch s)))) = TC_ACT_PIPE)"

lemma accepted_out_sent: "accepted_out (w_kernel W) (map (dp_of W) h) k t \<Longrightarrow> sent W h k t"
proof -
  assume "accepted_out (w_kernel W) (map (dp_of W) h) k t"
  then obtain y m p where "(Egress y, m) \<in> dp_of W ` set h" and rest:
    "parse_ctx (w_kernel W) y m = Some (Some p)" "\<not> is_ndp p" "forward_key p = k" "x_now y = t" "fst (moat_egress (w_kernel W) y m) = TC_ACT_PIPE"
    by (auto simp: accepted_out_def)
  then obtain e s where es: "(e, s) \<in> set h" "dp_of W (e, s) = (Egress y, m)" by fastforce
  then have "e = Packet_out y" "m = kmaps (shared (watch s))" by (cases e; simp)+
  with es(1) rest show ?thesis by (auto simp: sent_def)
qed

section \<open>The rules file follows\<close>

text \<open>File operations that read and write the format of \<open>X\<close>.\<close>

definition same_format :: "io_env \<Rightarrow> io_env \<Rightarrow> bool" where
  "same_format X Y \<longleftrightarrow> toml_round_trip Y \<and> io_read Y \<and> from_toml Y = from_toml X"

definition keeps_format :: "io_env \<Rightarrow> (event \<times> service) list \<Rightarrow> bool" where
  "keeps_format X h = list_all (\<lambda>(e, _). case e of Lock _ E \<Rightarrow> same_format X (io E) | _ \<Rightarrow> True) h"

lemma load_same_format: "same_format X Y \<Longrightarrow> io_read X \<Longrightarrow> load Y files p = load X files p"
  by (simp add: same_format_def load_def split: option.split)

lemma step_disk: "(\<And>i E. e \<noteq> Lock i E) \<Longrightarrow> disk (shared (watch (step W e s))) = disk (shared (watch s))"
  by (cases e) (auto simp: service_defs Let_def split: option.split client.split watch_pc.split list.split prod.split sum.split)

lemma lock_file:
  assumes "service_inv s" "healthy (Lock i E) s" "clients s i = Some (Locking req)" "same_format X (io E)" "io_read X"
    and "file_rules X (disk (shared (watch s))) = ds_on_disk (shared (watch s))"
  shows "file_rules X (disk (shared (watch (client_lock E i req s)))) = ds_on_disk (shared (watch (client_lock E i req s)))"
proof -
  obtain resp w where d: "dispatch E req (shared (watch s)) = (resp, w)" by fastforce
  have t: "shared (watch (client_lock E i req s)) = w"
    by (simp add: client_lock_def d set_client_def put_shared_def del: dispatch.simps)
  show ?thesis
  proof (cases "resp = Resp_Ok")
    case True
    with d have "dispatch E req (shared (watch s)) = (Resp_Ok, w)" by simp
    from dispatch_ok_effect(5) [OF _ _ this] assms have "load (io E) (disk w) RULES_FILE = Inr (ds_on_disk w)"
      by (simp add: service_inv_def same_format_def)
    with assms(4,5) show ?thesis by (simp add: t file_rules_def load_same_format)
  next
    case False
    then have "w = shared (watch s)"
      using assms(2,3) d dispatch_other_responses [OF d False] by (cases resp) (auto simp del: dispatch.simps)
    with assms(6) t show ?thesis by simp
  qed
qed

lemma run_file:
  assumes "service_run W s0 h s" "service_inv s0" "all_healthy h" "keeps_format X h" "io_read X"
    and "file_rules X (disk (shared (watch s0))) = ds_on_disk (shared (watch s0))"
  shows "file_rules X (disk (shared (watch s))) = ds_on_disk (shared (watch s))"
  using assms(1,3,4)
proof (induction rule: service_run.induct)
  case run_start
  show ?case by (rule assms(6))
next
  case (run_more h s e)
  then have IH: "file_rules X (disk (shared (watch s))) = ds_on_disk (shared (watch s))" "healthy e s"
    by (simp_all add: all_healthy_def keeps_format_def)
  have inv: "service_inv s" using service_run_inv [OF run_more.hyps(1) assms(2)] run_more.prems by (simp add: all_healthy_def)
  show ?case
  proof (cases "\<exists>i E. e = Lock i E")
    case True
    then obtain i E req where e: "e = Lock i E" "clients s i = Some (Locking req)"
      using run_more.hyps(2) by (auto split: option.splits client.splits)
    from lock_file [OF inv _ e(2) _ assms(5) IH(1), of E] IH(2) run_more.prems(2) e show ?thesis
      by (simp add: keeps_format_def del: healthy.simps)
  next
    case False
    then have "disk (shared (watch (step W e s))) = disk (shared (watch s))" by (intro step_disk) blast
    moreover have "ds_on_disk (shared (watch (step W e s))) = ds_on_disk (shared (watch s))"
      using False step_on_disk [of W e s] by (cases e) auto
    ultimately show ?thesis using IH(1) by simp
  qed
qed

section \<open>From the start\<close>

text \<open>A service that has just started on fresh maps, with interfaces that did not change between the
  first synchronisation and the watcher's first snapshot.\<close>

definition booted :: "machine \<Rightarrow> fs \<Rightarrow> bpf_maps \<Rightarrow> service \<Rightarrow> bool" where
  "booted H files m s \<longleftrightarrow> maps_ok (h_env H) \<and> sysfs_listed (net (h_env H)) \<and>
     iface_snapshot (h_watch_net H) = iface_snapshot (net (h_env H)) \<and> CONNTRACK m = Map.empty \<and>
     wf_on_disk (file_rules (io (h_env H)) files) \<and>
     (\<exists>names sock st. run_daemon H names sock files m = Inr st \<and> s = serving (st_watch st))"

lemma booted_serving:
  assumes "booted H files m s"
  obtains x where "s = serving x"
  using assms by (auto simp: booted_def)

lemma booted_inv:
  assumes "booted H files m s"
  shows "service_inv s" "CONNTRACK (kmaps (shared (watch s))) = Map.empty"
    "ds_on_disk (shared (watch s)) = file_rules (io (h_env H)) files" "disk (shared (watch s)) = files"
proof -
  obtain names sock st where run: "run_daemon H names sock files m = Inr st" and s: "s = serving (st_watch st)"
    and law: "maps_ok (h_env H)" "sysfs_listed (net (h_env H))" "iface_snapshot (h_watch_net H) = iface_snapshot (net (h_env H))"
      "CONNTRACK m = Map.empty" "wf_on_disk (file_rules (io (h_env H)) files)"
    using assms by (auto simp: booted_def)
  obtain attached m1 ns where
    r: "initial_attach (h_attach H) (h_boot_net H) (iface_filter (h_ifaces H)) (iface_snapshot (h_boot_net H)) names (Map.empty, m) = (attached, m1)"
    "start_daemon (h_env H) ns files m1 = Inr (shared (st_watch st))" "last_snapshot (st_watch st) = iface_snapshot (h_watch_net H)"
    using run_daemon_started [OF run] by metis
  note f = start_daemon_in_force [OF r(2) law(1,5)]
  show "service_inv s"
    using f r(3) law(2,3) translate_rules_any_sysfs [of "net (h_env H)"]
    by (auto simp: s serving_def service_inv_def enforced_def seen_def)
  have "CONNTRACK m1 = Map.empty"
    using initial_attach_loads [of m "h_attach H" "h_boot_net H" "iface_filter (h_ifaces H)" "iface_snapshot (h_boot_net H)" names Map.empty]
      law(4) r(1) by (simp add: loads_def)
  with f show "CONNTRACK (kmaps (shared (watch s))) = Map.empty"
    "ds_on_disk (shared (watch s)) = file_rules (io (h_env H)) files" "disk (shared (watch s)) = files"
    by (simp_all add: s serving_def loads_def)
qed

end
