(* ===== verification/Bench.thy ===== *)
theory Bench
  imports Daemon
begin

text \<open>
  The benchmark and decision oracle (\<open>src/crates/moatd/src/bin/bpf-bench.rs\<close>): the crafted
  packet, the crafted rules, the map helpers, the retry loop around the system call that runs a
  program, and the ten scenarios with the table they print. The durations that the kernel measures are not
  part of a row.
\<close>

section \<open>Packets and rules\<close>

definition copy_into :: "'a list \<Rightarrow> nat \<Rightarrow> 'a list \<Rightarrow> 'a list" where
  "copy_into xs i bs = take i xs @ bs @ drop (i + length bs) xs"

definition v4_tcp :: "u8 list \<Rightarrow> u8 list \<Rightarrow> u16 \<Rightarrow> u16 \<Rightarrow> u8 list" where
  "v4_tcp src dst sport dport =
     (let p = replicate (14 + 20 + 20) 0;
          p = p[12 := 0x08];
          p = p[14 := 0x45];
          p = copy_into p 16 (to_be_bytes16 40);
          p = p[22 := 64];
          p = p[23 := 6];
          p = copy_into p 26 src;
          p = copy_into p 30 dst;
          p = copy_into p 34 (to_be_bytes16 sport);
          p = copy_into p 36 (to_be_bytes16 dport);
          p = p[46 := 0x50];
          p = p[47 := 0x02]
      in p)"

definition pad16 :: "u8 list \<Rightarrow> u8 list" where
  "pad16 v = copy_into (replicate 16 0) 0 v"

definition rule_v4_dport :: "u8 \<Rightarrow> u8 \<Rightarrow> u16 \<Rightarrow> rule" where
  "rule_v4_dport direction action dport =
     \<lparr>r_version = SCHEMA_VERSION, r_direction = direction, r_action = action, r_proto = PROTO_TCP,
      r_iface_ifindex = IFACE_ANY, r_src = any_v4, r_dst = any_v4, r_src_port_min = 0, r_src_port_max = 0,
      r_dst_port_min = dport, r_dst_port_max = dport, r_enabled = 1, r_pad = replicate 3 0\<rparr>"

definition rule_v4_cidr_miss :: "u16 \<Rightarrow> rule" where
  "rule_v4_cidr_miss dport =
     (let src = any_v4;
          src = src\<lparr>c_prefix := 24\<rparr>;
          src = src\<lparr>c_addr := copy_into (c_addr src) 0 [192, 168, 0, 0]\<rparr>;
          r = rule_v4_dport DIR_IN ACT_ALLOW dport
      in r\<lparr>r_src := src\<rparr>)"

section \<open>The map helpers\<close>

definition bench_config :: "denv \<Rightarrow> u8 \<Rightarrow> u16 \<Rightarrow> bpf_maps \<Rightarrow> (err, bpf_maps) result" where
  "bench_config E bank count m =
     rbind (config_set E (CONFIG m) 0
       \<lparr>g_logging_enabled = 0, g_log_level = 0, g_active_bank = bank, g_conntrack_enabled = 1,
        g_rule_count = count, g_pad2 = 0\<rparr>) (\<lambda>c. Inr (m\<lparr>CONFIG := c\<rparr>))"

definition bench_defaults :: "denv \<Rightarrow> u8 \<Rightarrow> u8 \<Rightarrow> bpf_maps \<Rightarrow> (err, bpf_maps) result" where
  "bench_defaults E policy_in policy_out m =
     rbind (policy_set E (DEFAULT_POLICY m) POLICY_IN policy_in) (\<lambda>d.
     rbind (policy_set E d POLICY_OUT policy_out) (\<lambda>d. Inr (m\<lparr>DEFAULT_POLICY := d\<rparr>)))"

fun bench_rules_loop :: "denv \<Rightarrow> u32 \<Rightarrow> u32 \<Rightarrow> rule list \<Rightarrow> bpf_maps \<Rightarrow> (err, bpf_maps) result" where
  "bench_rules_loop E base i [] m = Inr m"
| "bench_rules_loop E base i (r # rs) m =
     rbind (rules_set E (RULES m) (base + i) r) (\<lambda>t. bench_rules_loop E base (i + 1) rs (m\<lparr>RULES := t\<rparr>))"

definition bench_rules :: "denv \<Rightarrow> u8 \<Rightarrow> rule list \<Rightarrow> bpf_maps \<Rightarrow> (err, bpf_maps) result" where
  "bench_rules E bank rules m = bench_rules_loop E (ucast bank * RULES_MAX) 0 rules m"

definition put_conn :: "kernel \<Rightarrow> conn_key \<Rightarrow> u64 \<Rightarrow> bpf_maps \<Rightarrow> bpf_maps" where
  "put_conn K key now m = m\<lparr>CONNTRACK := ct_insert K (CONNTRACK m) key \<lparr>last_seen_ns = now\<rparr>\<rparr>"

text \<open>\<open>conn\<close> is the outcome of finding \<open>CONNTRACK\<close> in the object and typing it.\<close>

definition insert_conn :: "(err, unit) result \<Rightarrow> kernel \<Rightarrow> conn_key \<Rightarrow> u64 \<Rightarrow> bpf_maps \<Rightarrow> (err, bpf_maps) result" where
  "insert_conn conn K key now m = rbind conn (\<lambda>_. Inr (put_conn K key now m))"

definition bench_reset :: "denv \<Rightarrow> bpf_maps \<Rightarrow> (err, bpf_maps) result" where
  "bench_reset E m = rbind (bench_config E 0 0 m) (\<lambda>m. bench_defaults E ACT_ALLOW ACT_ALLOW m)"

definition verdict_name :: "u32 \<Rightarrow> bool \<Rightarrow> string" where
  "verdict_name code tc =
     (if tc then
        (if code = TC_ACT_SHOT then ''SHOT(drop)'' else if code = TC_ACT_PIPE then ''PIPE(pass)'' else ''?'')
      else
        (if code = XDP_PASS then ''PASS'' else if code = XDP_DROP then ''DROP''
         else if code = XDP_ABORTED then ''ABORTED'' else ''?''))"

section \<open>Running a program\<close>

text \<open>
  \<open>test_run\<close> asks the kernel to run a program \<open>REPEAT\<close> times on a packet and retries when the
  call is interrupted. The kernel's side is an argument: for each call its outcome and
  the clock readings of the runs it made, so a list that ends in interruptions stands for
  a loop that has not returned. The return value is the one of the last run.
\<close>

type_synonym prog = "packet_ctx \<Rightarrow> bpf_maps \<Rightarrow> u32 \<times> bpf_maps"

datatype syscall = Interrupted "(u64 \<times> u64) list" | Failed string | Completed "(u64 \<times> u64) list"

definition test_ctx :: "u32 \<Rightarrow> u8 list \<Rightarrow> u64 \<times> u64 \<Rightarrow> packet_ctx" where
  "test_ctx ifindex data t = \<lparr>x_ifindex = ifindex, x_data = 4096, x_data_end = 4096 + of_nat (length data),
     x_mem = mem_of 4096 data, x_cpu = 0, x_now = fst t, x_now_log = snd t\<rparr>"

fun run_repeat :: "prog \<Rightarrow> u32 \<Rightarrow> u8 list \<Rightarrow> (u64 \<times> u64) list \<Rightarrow> u32 \<Rightarrow> bpf_maps \<Rightarrow> u32 \<times> bpf_maps" where
  "run_repeat prog ifx data [] retval m = (retval, m)"
| "run_repeat prog ifx data (t # ts) retval m =
     (case prog (test_ctx ifx data t) m of (retval, m) \<Rightarrow> run_repeat prog ifx data ts retval m)"

fun test_run :: "prog \<Rightarrow> u32 \<Rightarrow> u8 list \<Rightarrow> syscall list \<Rightarrow> bpf_maps \<Rightarrow> (err, u32 \<times> bpf_maps) result option" where
  "test_run prog ifx data [] m = None"
| "test_run prog ifx data (Completed ts # cs) m = Some (Inr (run_repeat prog ifx data ts 0 m))"
| "test_run prog ifx data (Interrupted ts # cs) m = test_run prog ifx data cs (snd (run_repeat prog ifx data ts 0 m))"
| "test_run prog ifx data (Failed e # cs) m = Some (Inl (Io_error e))"

section \<open>Scenarios\<close>

definition ip :: "u8 \<Rightarrow> u8 \<Rightarrow> u8 \<Rightarrow> u8 \<Rightarrow> u8 list" where
  "ip a b c d = [a, b, c, d]"

definition host :: "u8 list" where
  "host = ip 10 0 0 1"

definition peer :: "u8 list" where
  "peer = ip 10 0 0 2"

definition pkt_in :: "u8 list" where
  "pkt_in = v4_tcp peer host 40000 80"

definition pkt_out :: "u8 list" where
  "pkt_out = v4_tcp host peer 40000 80"

definition host_key :: "u16 \<Rightarrow> u16 \<Rightarrow> conn_key" where
  "host_key src_port dst_port =
     \<lparr>k_proto = PROTO_TCP, k_family = FAMILY_V4, k_pad = replicate 2 0, k_src_addr = pad16 host, k_dst_addr = pad16 peer,
      k_src_port = src_port, k_dst_port = dst_port\<rparr>"

definition many :: "rule list" where
  "many = map (\<lambda>i. rule_v4_dport DIR_IN ACT_ALLOW (1000 + of_nat i)) [0..<unat RULES_MAX]"

definition walk_miss :: "rule list" where
  "walk_miss = replicate (unat RULES_MAX) (rule_v4_cidr_miss 80)"

definition deep :: "rule list" where
  "deep = replicate 255 (rule_v4_cidr_miss 80) @ [rule_v4_dport DIR_IN ACT_ALLOW 80]"

text \<open>Each scenario prepares the maps and prints one row; \<open>now\<close> is the clock at the insertion
  of a tracked connection.\<close>

record scenario =
  sc_name :: string
  sc_tc :: bool
  sc_pkt :: "u8 list"
  sc_setup :: "bpf_maps \<Rightarrow> (err, bpf_maps) result"

definition deny_setup :: "denv \<Rightarrow> bpf_maps \<Rightarrow> (err, bpf_maps) result" where
  "deny_setup E m = rbind (bench_reset E m) (bench_defaults E ACT_DENY ACT_ALLOW)"

definition rules_setup :: "denv \<Rightarrow> rule list \<Rightarrow> u16 \<Rightarrow> bpf_maps \<Rightarrow> (err, bpf_maps) result" where
  "rules_setup E rules count m = rbind (bench_rules E 0 rules m) (bench_config E 0 count)"

definition scenarios :: "kernel \<Rightarrow> denv \<Rightarrow> (err, unit) result \<Rightarrow> u64 \<Rightarrow> u64 \<Rightarrow> scenario list" where
  "scenarios K E conn now now' =
     [\<lparr>sc_name = ''ingress: default-allow, 0 rules (new flow)'', sc_tc = False, sc_pkt = pkt_in,
       sc_setup = bench_reset E\<rparr>,
      \<lparr>sc_name = ''ingress: default-deny, 0 rules (DROP)'', sc_tc = False, sc_pkt = pkt_in,
       sc_setup = deny_setup E\<rparr>,
      \<lparr>sc_name = ''ingress: established (conntrack hit)'', sc_tc = False, sc_pkt = pkt_in,
       sc_setup = (\<lambda>m. rbind (deny_setup E m) (insert_conn conn K (host_key 80 40000) now))\<rparr>,
      \<lparr>sc_name = ''ingress: 256 rules, no match (new flow)'', sc_tc = False, sc_pkt = pkt_in,
       sc_setup = (\<lambda>m. rbind (bench_reset E m) (rules_setup E many (ucast RULES_MAX)))\<rparr>,
      \<lparr>sc_name = ''ingress: 256 rules, cidr-miss (worst-case walk)'', sc_tc = False, sc_pkt = pkt_in,
       sc_setup = (\<lambda>m. rbind (bench_reset E m) (rules_setup E walk_miss (ucast RULES_MAX)))\<rparr>,
      \<lparr>sc_name = ''ingress: match at slot 255 (proves full walk)'', sc_tc = False, sc_pkt = pkt_in,
       sc_setup = (\<lambda>m. rbind (deny_setup E m) (rules_setup E deep (ucast RULES_MAX)))\<rparr>,
      \<lparr>sc_name = ''ingress: rule match at slot 0'', sc_tc = False, sc_pkt = pkt_in,
       sc_setup = (\<lambda>m. rbind (bench_reset E m) (rules_setup E [rule_v4_dport DIR_IN ACT_ALLOW 80] 1))\<rparr>,
      \<lparr>sc_name = ''egress: default-allow, 0 rules (new flow)'', sc_tc = True, sc_pkt = pkt_out,
       sc_setup = bench_reset E\<rparr>,
      \<lparr>sc_name = ''egress: established (conntrack hit)'', sc_tc = True, sc_pkt = pkt_out,
       sc_setup = (\<lambda>m. rbind (bench_reset E m) (insert_conn conn K (host_key 40000 80) now'))\<rparr>,
      \<lparr>sc_name = ''egress: 256 rules, no match (new flow)'', sc_tc = True, sc_pkt = pkt_out,
       sc_setup = (\<lambda>m. rbind (bench_reset E m) (rules_setup E many (ucast RULES_MAX)))\<rparr>]"

definition row :: "kernel \<Rightarrow> u32 \<Rightarrow> scenario \<Rightarrow> syscall list \<Rightarrow> bpf_maps \<Rightarrow> (err, (string \<times> string) \<times> bpf_maps) result option" where
  "row K ifx sc cs m =
     map_option (\<lambda>r. rbind r (\<lambda>(ret, m). Inr ((sc_name sc, verdict_name ret (sc_tc sc)), m)))
       (test_run (if sc_tc sc then moat_egress K else moat_ingress K) ifx (sc_pkt sc) cs m)"

text \<open>The scenarios in order, each with the kernel's calls of its row; the first error ends the
  program.\<close>

fun bench_rows ::
    "kernel \<Rightarrow> u32 \<Rightarrow> (scenario \<times> syscall list) list \<Rightarrow> bpf_maps \<Rightarrow> (err, (string \<times> string) list) result option" where
  "bench_rows K ifx [] m = Some (Inr [])"
| "bench_rows K ifx ((sc, cs) # scs) m =
     (case sc_setup sc m of
        Inl e \<Rightarrow> Some (Inl e)
      | Inr m \<Rightarrow>
          case row K ifx sc cs m of
            None \<Rightarrow> None
          | Some (Inl e) \<Rightarrow> Some (Inl e)
          | Some (Inr (line, m)) \<Rightarrow> map_option (\<lambda>r. rbind r (\<lambda>ls. Inr (line # ls))) (bench_rows K ifx scs m))"

definition bench_main ::
    "kernel \<Rightarrow> denv \<Rightarrow> (err, unit) result \<Rightarrow> u32 \<Rightarrow> u64 \<Rightarrow> u64 \<Rightarrow> syscall list list \<Rightarrow> bpf_maps \<Rightarrow> (err, (string \<times> string) list) result option" where
  "bench_main K E conn ifx now now' calls m = bench_rows K ifx (zip (scenarios K E conn now now') calls) m"

section \<open>The packets are what they say\<close>

definition tcp_parsed :: "u8 list \<Rightarrow> u8 list \<Rightarrow> u16 \<Rightarrow> u16 \<Rightarrow> parsed" where
  "tcp_parsed src dst sport dport =
     \<lparr>p_family = FAMILY_V4, p_proto_byte = PROTO_TCP, p_icmp_type = 0, p_src_addr = pad16 src, p_dst_addr = pad16 dst,
      p_src_port = sport, p_dst_port = dport\<rparr>"

lemma copy_into_rec:
  "copy_into xs 0 bs = bs @ drop (length bs) xs"
  "copy_into (x # xs) (Suc i) bs = x # copy_into xs i bs"
  "copy_into (x # xs) (numeral k) bs = x # copy_into xs (pred_numeral k) bs"
  by (simp_all add: copy_into_def numeral_eq_Suc)

lemma list_numeral_rec:
  "(x # xs)[numeral k := v] = x # xs[pred_numeral k := v]"
  "replicate (numeral k) y = y # replicate (pred_numeral k) y"
  by (simp_all add: numeral_eq_Suc)

lemma v4_tcp_bytes:
  "v4_tcp [a, b, c, d] [a', b', c', d'] sp dp =
     replicate 12 0 @ [8, 0, 0x45, 0, 0, 40, 0, 0, 0, 0, 64, 6, 0, 0, a, b, c, d, a', b', c', d'] @
     to_be_bytes16 sp @ to_be_bytes16 dp @ [0, 0, 0, 0, 0, 0, 0, 0, 0x50, 2, 0, 0, 0, 0, 0, 0]"
  by (simp add: v4_tcp_def copy_into_rec list_numeral_rec to_be_bytes16_def Let_def)

lemma length_v4_tcp: "length (v4_tcp [a, b, c, d] [a', b', c', d'] sp dp) = 54"
  by (simp add: v4_tcp_bytes to_be_bytes16_def)

lemma ref_packet_v4_tcp:
  "ref_packet False (v4_tcp [a, b, c, d] [a', b', c', d'] sp dp) =
     Some (Some (tcp_parsed [a, b, c, d] [a', b', c', d'] sp dp))"
proof -
  have be: "be_word [a, b] = w" if "to_be_bytes16 w = [a, b]" for a b and w :: u16
    using be_word_to_be_bytes16 [of w] that by simp
  obtain s1 s2 d1 d2 where b: "to_be_bytes16 sp = [s1, s2]" "to_be_bytes16 dp = [d1, d2]"
    by (simp add: to_be_bytes16_def)
  have ports: "be_word [s1, s2] = sp" "be_word [d1, d2] = dp" using b be by simp_all
  have lits: "be_word [8, 0] = (0x800 :: u16)" "be_word [0, 0] = (0 :: u16)" by (simp_all add: be_word_def)
  have "(69 AND 15 :: u8) = 5" by simp
  then show ?thesis
    by (simp add: v4_tcp_bytes b ref_packet_def ref_ether.simps ref_u16_def ref_v4_def ref_l4_def ports lits
        tcp_parsed_def mk_parsed_def pad16_def copy_into_def moat_consts)
qed

lemma parse_ctx_v4_tcp:
  assumes "rfc_headers (hdrs K)" "IFACE_L2 m ifx \<noteq> Some 0"
  shows "parse_ctx K (test_ctx ifx (v4_tcp [a, b, c, d] [a', b', c', d'] sp dp) t) m =
    Some (Some (tcp_parsed [a, b, c, d] [a', b', c', d'] sp dp))"
proof -
  have widen: "(ucast v :: usize) \<noteq> 0" if "v \<noteq> 0" for v :: u8
  proof -
    have "unat (ucast v :: usize) = unat v"
      by (simp add: unsigned_ucast_eq take_bit_nat_eq_self_iff order.strict_trans [OF unsigned_less])
    with that show ?thesis by (simp add: word_unat_eq_iff)
  qed
  have "l2_off_for K m ifx \<noteq> 0"
    using assms widen by (auto simp: l2_off_for_def rfc_headers_def split: option.split)
  moreover have "pkt_bytes (mem_of 4096 (v4_tcp [a, b, c, d] [a', b', c', d'] sp dp)) 4096
      (4096 + of_nat (length (v4_tcp [a, b, c, d] [a', b', c', d'] sp dp))) = v4_tcp [a, b, c, d] [a', b', c', d'] sp dp"
    by (rule pkt_bytes_mem_of) (simp add: length_v4_tcp)
  ultimately show ?thesis
    using assms(1) by (simp add: parse_ctx_def test_ctx_def parse_packet_ref ref_packet_v4_tcp)
qed

text \<open>The packets as the programs see them.\<close>

definition in_parsed :: parsed where
  "in_parsed = tcp_parsed peer host 40000 80"

definition out_parsed :: parsed where
  "out_parsed = tcp_parsed host peer 40000 80"

lemma bench_packets:
  assumes "rfc_headers (hdrs K)" "IFACE_L2 m ifx \<noteq> Some 0"
  shows "parse_ctx K (test_ctx ifx pkt_in t) m = Some (Some in_parsed)"
    and "parse_ctx K (test_ctx ifx pkt_out t) m = Some (Some out_parsed)"
  using parse_ctx_v4_tcp [OF assms]
  by (simp_all add: pkt_in_def pkt_out_def in_parsed_def out_parsed_def host_def peer_def ip_def)

lemma bench_keys:
  "reverse_key in_parsed = host_key 80 40000" "forward_key out_parsed = host_key 40000 80"
  "\<not> is_ndp in_parsed" "\<not> is_ndp out_parsed"
  by (simp_all add: in_parsed_def out_parsed_def tcp_parsed_def reverse_key_def forward_key_def host_key_def is_ndp_def moat_consts)

section \<open>What a scenario prepares\<close>

definition bench_cfg :: "u16 \<Rightarrow> global_config" where
  "bench_cfg count = \<lparr>g_logging_enabled = 0, g_log_level = 0, g_active_bank = 0, g_conntrack_enabled = 1,
     g_rule_count = count, g_pad2 = 0\<rparr>"

lemma array_set_ok:
  "array_law upd \<Longrightarrow> array_total upd n \<Longrightarrow> i < n \<Longrightarrow> upd m i v = Inr (m(i \<mapsto> v))"
  unfolding array_law_def array_total_def by metis

lemma bench_config_ok:
  "maps_ok E \<Longrightarrow> maps_total E \<Longrightarrow> bench_config E 0 count m = Inr (m\<lparr>CONFIG := (CONFIG m)(0 \<mapsto> bench_cfg count)\<rparr>)"
  by (simp add: bench_config_def bench_cfg_def maps_ok_def maps_total_def array_set_ok [where n = 1])

lemma bench_defaults_ok:
  "maps_ok E \<Longrightarrow> maps_total E \<Longrightarrow> bench_defaults E a b m =
     Inr (m\<lparr>DEFAULT_POLICY := (DEFAULT_POLICY m)(POLICY_IN \<mapsto> a, POLICY_OUT \<mapsto> b)\<rparr>)"
  by (simp add: bench_defaults_def maps_ok_def maps_total_def array_set_ok [where n = 3] moat_consts)

text \<open>The maps after a set-up: conntrack on, logging off, bank 0 with \<open>count\<close> rules, the two default
  policies; everything else as before.\<close>

definition prepared :: "u8 \<Rightarrow> u16 \<Rightarrow> bpf_maps \<Rightarrow> bpf_maps \<Rightarrow> bool" where
  "prepared a count m m' \<longleftrightarrow> CONFIG m' 0 = Some (bench_cfg count) \<and> DEFAULT_POLICY m' POLICY_IN = Some a \<and>
     DEFAULT_POLICY m' POLICY_OUT = Some ACT_ALLOW \<and> CONNTRACK m' = CONNTRACK m \<and> IFACE_L2 m' = IFACE_L2 m"

lemma bench_reset_ok:
  "maps_ok E \<Longrightarrow> maps_total E \<Longrightarrow> \<exists>m'. bench_reset E m = Inr m' \<and> prepared ACT_ALLOW 0 m m'"
  by (simp add: bench_reset_def bench_config_ok bench_defaults_ok prepared_def moat_consts)

lemma deny_setup_ok:
  "maps_ok E \<Longrightarrow> maps_total E \<Longrightarrow> \<exists>m'. deny_setup E m = Inr m' \<and> prepared ACT_DENY 0 m m'"
  by (simp add: deny_setup_def bench_reset_def bench_config_ok bench_defaults_ok prepared_def moat_consts)

lemma bench_rules_loop_ok:
  assumes "array_law (rules_set E)" "array_total (rules_set E) RULES_SLOTS"
  shows "i + length rs \<le> 256 \<Longrightarrow> \<exists>R. bench_rules_loop E 0 (of_nat i) rs m = Inr (m\<lparr>RULES := R\<rparr>) \<and>
     (\<forall>j<i. R (of_nat j) = RULES m (of_nat j)) \<and> (\<forall>k<length rs. R (of_nat (i + k)) = Some (rs ! k))"
proof (induction rs arbitrary: i m)
  case (Cons r rs)
  have i: "i < 256" using Cons.prems by simp
  let ?m = "m\<lparr>RULES := (RULES m)(of_nat i \<mapsto> r)\<rparr>"
  have "rules_set E (RULES m) (of_nat i) r = Inr ((RULES m)(of_nat i \<mapsto> r))"
    by (rule array_set_ok [OF assms]) (use i in \<open>simp add: word_less_nat_alt unat_of_nat moat_consts\<close>)
  moreover have nxt: "(of_nat i :: u32) + 1 = of_nat (Suc i)" by simp
  ultimately have run: "bench_rules_loop E 0 (of_nat i) (r # rs) m = bench_rules_loop E 0 (of_nat (Suc i)) rs ?m"
    by (simp add: add.commute)
  have "Suc i + length rs \<le> 256" using Cons.prems by simp
  from Cons.IH [OF this, of ?m] obtain R where R: "bench_rules_loop E 0 (of_nat (Suc i)) rs ?m = Inr (?m\<lparr>RULES := R\<rparr>)"
    "\<forall>j<Suc i. R (of_nat j) = RULES ?m (of_nat j)" "\<forall>k<length rs. R (of_nat (Suc i + k)) = Some (rs ! k)" by blast
  have old: "R (of_nat j) = RULES m (of_nat j)" if "j < i" for j
  proof -
    have "(of_nat j :: u32) \<noteq> of_nat i" using that i by (simp add: word_unat_eq_iff unat_of_nat)
    with R(2) that show ?thesis by simp
  qed
  have new: "R (of_nat (i + k)) = Some ((r # rs) ! k)" if "k < length (r # rs)" for k
    using that R(2,3) by (cases k) auto
  show ?case unfolding run using R(1) old new by auto
qed (auto intro!: exI [where x = "RULES _"])

lemma rules_setup_ok:
  assumes "maps_ok E" "maps_total E" "prepared a 0 m m1" "length rs \<le> 256" "unat count = length rs"
  shows "\<exists>m'. rules_setup E rs count m1 = Inr m' \<and> prepared a count m m' \<and> active_rules m' = rs"
proof -
  obtain R where R: "bench_rules E 0 rs m1 = Inr (m1\<lparr>RULES := R\<rparr>)" "\<forall>k<length rs. R (of_nat k) = Some (rs ! k)"
    using bench_rules_loop_ok [of E 0 rs m1] assms(1,2,4) by (auto simp: bench_rules_def maps_ok_def maps_total_def)
  let ?m = "m1\<lparr>RULES := R, CONFIG := (CONFIG m1)(0 \<mapsto> bench_cfg count)\<rparr>"
  have "active_window ?m = (0, ucast count)" by (simp add: active_window_def bench_cfg_def)
  moreover have "map (\<lambda>i. R (of_nat i)) [0..<length rs] = map Some rs"
    by (rule nth_equalityI) (simp_all add: R(2))
  moreover have "min (unat RULES_MAX) (unat (ucast count :: u32)) = length rs"
    using assms(4,5) by (simp add: RULES_MAX_def unsigned_ucast_eq take_bit_nat_eq_self)
  moreover have tw: "takeWhile (\<lambda>r. r \<noteq> None) (map Some rs) = map Some rs"
    by (subst takeWhile_eq_all_conv) auto
  ultimately have "active_rules ?m = rs"
    by (simp add: active_rules_def tw o_def del: not_None_eq)
  moreover have "prepared a count m ?m" using assms(3) by (simp add: prepared_def)
  ultimately show ?thesis
    using R(1) bench_config_ok [OF assms(1,2)] by (simp add: rules_setup_def)
qed

section \<open>Rows\<close>

text \<open>Calls that return, with every clock reading less than the time to live after \<open>now\<close>.\<close>

definition fresh :: "u64 \<Rightarrow> (u64 \<times> u64) list \<Rightarrow> bool" where
  "fresh now ts \<longleftrightarrow> list_all (\<lambda>t. saturating_sub (fst t) now < CONNTRACK_TTL_NS) ts"

fun returns :: "u64 \<Rightarrow> syscall list \<Rightarrow> bool" where
  "returns now [] = False"
| "returns now (Completed ts # cs) = (ts \<noteq> [] \<and> fresh now ts)"
| "returns now (Interrupted ts # cs) = (fresh now ts \<and> returns now cs)"
| "returns now (Failed e # cs) = False"

text \<open>A program that gives the same verdict in every state of a set it does not leave.\<close>

definition steady :: "prog \<Rightarrow> u32 \<Rightarrow> u8 list \<Rightarrow> u64 \<Rightarrow> (bpf_maps \<Rightarrow> bool) \<Rightarrow> u32 \<Rightarrow> bool" where
  "steady prog ifx data now P a \<longleftrightarrow>
     (\<forall>t m. saturating_sub (fst t) now < CONNTRACK_TTL_NS \<longrightarrow> P m \<longrightarrow>
        (case prog (test_ctx ifx data t) m of (b, m') \<Rightarrow> b = a \<and> P m'))"

lemma run_repeat_steady:
  assumes "steady prog ifx data now P a"
  shows "fresh now ts \<Longrightarrow> P m \<Longrightarrow>
    (case run_repeat prog ifx data ts ret m of (b, m') \<Rightarrow> (ts \<noteq> [] \<longrightarrow> b = a) \<and> P m')"
proof (induction ts arbitrary: m ret)
  case (Cons t ts)
  obtain b m1 where run: "prog (test_ctx ifx data t) m = (b, m1)" by fastforce
  with assms Cons.prems have "b = a \<and> P m1" unfolding steady_def fresh_def by fastforce
  then have "b = a" "P m1" by simp_all
  with Cons.IH [of m1 b] Cons.prems run show ?case by (cases ts) (auto simp: fresh_def split: prod.splits)
qed simp

lemma test_run_steady:
  assumes "steady prog ifx data now P a"
  shows "returns now cs \<Longrightarrow> P m \<Longrightarrow> \<exists>m'. test_run prog ifx data cs m = Some (Inr (a, m')) \<and> P m'"
proof (induction cs arbitrary: m)
  case (Cons c cs)
  show ?case
  proof (cases c)
    case (Interrupted ts)
    with Cons run_repeat_steady [OF assms, of ts m 0] show ?thesis by (auto split: prod.splits)
  next
    case (Completed ts)
    with Cons.prems run_repeat_steady [OF assms, of ts m 0] show ?thesis by (auto split: prod.splits)
  qed (use Cons.prems in simp)
qed simp

text \<open>The states in which a row runs: the interface has an Ethernet header, connection tracking
  is on and the log off.\<close>

definition bench_ready :: "u32 \<Rightarrow> bpf_maps \<Rightarrow> bool" where
  "bench_ready ifx m \<longleftrightarrow> IFACE_L2 m ifx \<noteq> Some 0 \<and> (\<exists>count. CONFIG m 0 = Some (bench_cfg count))"

lemma bench_ready_flags: "bench_ready ifx m \<Longrightarrow> conntrack_enabled m \<and> \<not> logging_enabled m"
  by (auto simp: bench_ready_def bench_cfg_def conntrack_enabled_def logging_enabled_def)

lemma steady_hit:
  assumes "rfc_headers (hdrs K)"
  shows "steady (moat_ingress K) ifx pkt_in now
    (\<lambda>m. bench_ready ifx m \<and> CONNTRACK m (host_key 80 40000) = Some \<lparr>last_seen_ns = now\<rparr>) XDP_PASS"
proof -
  have "moat_ingress K (test_ctx ifx pkt_in t) m = (XDP_PASS, m)"
    if "bench_ready ifx m" "CONNTRACK m (host_key 80 40000) = Some \<lparr>last_seen_ns = now\<rparr>"
      "saturating_sub (fst t) now < CONNTRACK_TTL_NS" for t m
  proof -
    have "x_now (test_ctx ifx pkt_in t) = fst t" by (simp add: test_ctx_def)
    with that bench_ready_flags [OF that(1)] bench_packets(1) [OF assms, of m ifx t] show ?thesis
      by (simp add: ingress_cases established_def bench_keys bench_ready_def)
  qed
  then show ?thesis by (simp add: steady_def)
qed

lemma steady_walk:
  assumes "rfc_headers (hdrs K)"
  shows "steady (moat_ingress K) ifx pkt_in now
    (\<lambda>m. bench_ready ifx m \<and> CONNTRACK m (host_key 80 40000) = None \<and> fst (walk_rules m DIR_IN ifx in_parsed) = a)
    (if a = ACT_ALLOW then XDP_PASS else XDP_DROP)"
proof -
  have "moat_ingress K (test_ctx ifx pkt_in t) m = (if a = ACT_ALLOW then XDP_PASS else XDP_DROP, m)"
    if "bench_ready ifx m" "CONNTRACK m (host_key 80 40000) = None" "fst (walk_rules m DIR_IN ifx in_parsed) = a" for t m
  proof -
    have "x_ifindex (test_ctx ifx pkt_in t) = ifx" by (simp add: test_ctx_def)
    with that bench_ready_flags [OF that(1)] bench_packets(1) [OF assms, of m ifx t] show ?thesis
      by (simp add: ingress_cases established_def bench_keys emit_drop_def bench_ready_def)
  qed
  then show ?thesis by (simp add: steady_def)
qed

lemma walk_after_egress: "walk_rules (snd (moat_egress K x m)) dir ifi p = walk_rules m dir ifi p"
  by (rule walk_rules_cong) simp_all

lemma steady_egress:
  assumes "rfc_headers (hdrs K)"
  shows "steady (moat_egress K) ifx pkt_out now
    (\<lambda>m. bench_ready ifx m \<and> fst (walk_rules m DIR_OUT ifx out_parsed) = ACT_ALLOW) TC_ACT_PIPE"
proof -
  have "fst (moat_egress K (test_ctx ifx pkt_out t) m) = TC_ACT_PIPE"
    if "bench_ready ifx m" "fst (walk_rules m DIR_OUT ifx out_parsed) = ACT_ALLOW" for t m
  proof -
    have "x_ifindex (test_ctx ifx pkt_out t) = ifx" by (simp add: test_ctx_def)
    with that bench_packets(2) [OF assms, of m ifx t] show ?thesis
      by (simp add: egress_cases bench_keys bench_ready_def)
  qed
  then show ?thesis
    by (simp add: steady_def bench_ready_def walk_after_egress split_beta)
qed

lemma prepared_ready: "prepared a count m m' \<Longrightarrow> IFACE_L2 m ifx \<noteq> Some 0 \<Longrightarrow> bench_ready ifx m'"
  by (auto simp: prepared_def bench_ready_def)

lemma prepared_walk:
  assumes "prepared a count m m'" "active_rules m' = rs" "\<forall>r \<in> set rs. r_action r \<noteq> - 1"
  shows "fst (walk_rules m' DIR_IN ifx p) = rules_decide rs a (DIR_IN, ifx, p)"
    and "fst (walk_rules m' DIR_OUT ifx p) = rules_decide rs ACT_ALLOW (DIR_OUT, ifx, p)"
  using assms walk_rules_decides [of m' DIR_IN ifx p] walk_rules_decides [of m' DIR_OUT ifx p]
  by (simp_all add: prepared_def default_verdict_def moat_consts)

lemma prepared_no_rules: "prepared a 0 m m' \<Longrightarrow> active_rules m' = []"
  by (simp add: prepared_def active_rules_def active_window_def bench_cfg_def)

text \<open>The rules of the scenarios and the two packets.\<close>

lemma rules_never_unset: "r \<in> set many \<union> set deep \<union> set walk_miss \<Longrightarrow> r_action r \<noteq> - 1"
  by (auto simp: many_def deep_def walk_miss_def rule_v4_dport_def rule_v4_cidr_miss_def Let_def moat_consts)

lemma many_ignores_outbound: "rules_decide many d (DIR_OUT, ifx, p) = d"
  by (rule wire.decide_default) (auto simp: many_def rule_v4_dport_def flow_matches_def rule_matches_def moat_consts)

lemma cidr_miss: "\<not> flow_matches (rule_v4_cidr_miss 80) (DIR_IN, ifx, in_parsed)"
  by (simp add: flow_matches_def rule_matches_def rule_v4_cidr_miss_def rule_v4_dport_def in_parsed_def tcp_parsed_def
      cidr_contains_def cidr_contains_v4_def be_word_def mask_eq_exp_minus_1 any_v4_def copy_into_def pad16_def peer_def ip_def moat_consts Let_def)

lemma allow_80_matches: "flow_matches (rule_v4_dport DIR_IN ACT_ALLOW 80) (DIR_IN, ifx, in_parsed)"
  by (simp add: flow_matches_def rule_matches_def rule_v4_dport_def in_parsed_def tcp_parsed_def
      cidr_contains_def any_v4_def moat_consts)

lemma deep_decides: "rules_decide deep d (DIR_IN, ifx, in_parsed) = ACT_ALLOW"
  using wire.decide_first [of "replicate 255 (rule_v4_cidr_miss 80)" "(DIR_IN, ifx, in_parsed)"
      "rule_v4_dport DIR_IN ACT_ALLOW 80" "[]" d] cidr_miss [of ifx] allow_80_matches [of ifx]
  by (simp add: deep_def rule_v4_dport_def)

lemma walk_miss_decides: "rules_decide walk_miss d (DIR_IN, ifx, in_parsed) = d"
  using cidr_miss by (intro wire.decide_default) (simp add: walk_miss_def)

lemma scenario_lengths: "length many = 256" "length deep = 256" "length walk_miss = 256" "unat (ucast RULES_MAX :: u16) = 256"
  by (simp_all add: many_def deep_def walk_miss_def moat_consts)

section \<open>The table\<close>

text \<open>From every state of \<open>P\<close> the rows print \<open>ls\<close>.\<close>

definition prints :: "kernel \<Rightarrow> u32 \<Rightarrow> (scenario \<times> syscall list) list \<Rightarrow> (bpf_maps \<Rightarrow> bool) \<Rightarrow> (string \<times> string) list \<Rightarrow> bool" where
  "prints K ifx scs P ls \<longleftrightarrow> (\<forall>m. P m \<longrightarrow> bench_rows K ifx scs m = Some (Inr ls))"

lemma prints_Nil: "prints K ifx [] P []"
  by (simp add: prints_def)

lemma prints_Cons:
  assumes "steady (if sc_tc sc then moat_egress K else moat_ingress K) ifx (sc_pkt sc) now Q a" "returns now cs"
    and "\<And>m. P m \<Longrightarrow> \<exists>m1. sc_setup sc m = Inr m1 \<and> Q m1" and "\<And>m. Q m \<Longrightarrow> P' m"
    and "prints K ifx scs P' ls"
  shows "prints K ifx ((sc, cs) # scs) P ((sc_name sc, verdict_name a (sc_tc sc)) # ls)"
  unfolding prints_def
proof (intro allI impI)
  fix m assume "P m"
  then obtain m1 where m1: "sc_setup sc m = Inr m1" "Q m1" using assms(3) by blast
  from test_run_steady [OF assms(1,2) this(2)] obtain m2 where
    "test_run (if sc_tc sc then moat_egress K else moat_ingress K) ifx (sc_pkt sc) cs m1 = Some (Inr (a, m2))" "Q m2" by blast
  moreover from this(2) assms(4,5) have "bench_rows K ifx scs m2 = Some (Inr ls)" by (simp add: prints_def)
  ultimately show "bench_rows K ifx ((sc, cs) # scs) m = Some (Inr ((sc_name sc, verdict_name a (sc_tc sc)) # ls))"
    using m1(1) by (simp add: row_def)
qed

text \<open>The three kinds of state between rows: before and after the tracked connection is inserted,
  and once the egress rows may have evicted it.\<close>

definition before_conn :: "u32 \<Rightarrow> bpf_maps \<Rightarrow> bool" where
  "before_conn ifx m \<longleftrightarrow> IFACE_L2 m ifx \<noteq> Some 0 \<and> CONNTRACK m (host_key 80 40000) = None"

definition after_conn :: "u32 \<Rightarrow> u64 \<Rightarrow> bpf_maps \<Rightarrow> bool" where
  "after_conn ifx now m \<longleftrightarrow> IFACE_L2 m ifx \<noteq> Some 0 \<and> CONNTRACK m (host_key 80 40000) = Some \<lparr>last_seen_ns = now\<rparr>"

lemma ingress_row_walk:
  assumes "rfc_headers (hdrs K)" "\<not> sc_tc sc" "sc_pkt sc = pkt_in" "returns now cs"
    and "\<And>m. \<exists>m1. sc_setup sc m = Inr m1 \<and> prepared a count m m1 \<and> active_rules m1 = rs"
    and "\<forall>r \<in> set rs. r_action r \<noteq> - 1"
    and "prints K ifx scs (before_conn ifx) ls"
  shows "prints K ifx ((sc, cs) # scs) (before_conn ifx)
    ((sc_name sc, if rules_decide rs a (DIR_IN, ifx, in_parsed) = ACT_ALLOW then ''PASS'' else ''DROP'') # ls)"
proof -
  let ?v = "rules_decide rs a (DIR_IN, ifx, in_parsed)"
  let ?Q = "\<lambda>m. bench_ready ifx m \<and> CONNTRACK m (host_key 80 40000) = None \<and> fst (walk_rules m DIR_IN ifx in_parsed) = ?v"
  have "\<exists>m1. sc_setup sc m = Inr m1 \<and> ?Q m1" if "before_conn ifx m" for m
    using assms(5) [of m] that prepared_ready [of a count m _ ifx] prepared_walk(1) [of a count m _ rs ifx in_parsed] assms(6)
    unfolding before_conn_def prepared_def by metis
  moreover have "before_conn ifx m" if "?Q m" for m using that by (simp add: before_conn_def bench_ready_def)
  ultimately have "prints K ifx ((sc, cs) # scs) (before_conn ifx)
      ((sc_name sc, verdict_name (if ?v = ACT_ALLOW then XDP_PASS else XDP_DROP) (sc_tc sc)) # ls)"
    using assms(2,3,4,7) steady_walk [OF assms(1), of ifx now ?v] by (intro prints_Cons [where Q = ?Q]) simp_all
  then show ?thesis using assms(2) by (simp add: verdict_name_def moat_consts split: if_splits)
qed

lemma ingress_row_hit:
  assumes "rfc_headers (hdrs K)" "\<not> sc_tc sc" "sc_pkt sc = pkt_in" "returns now cs"
    and "\<And>m. P m \<Longrightarrow> \<exists>m1. sc_setup sc m = Inr m1 \<and> bench_ready ifx m1 \<and> after_conn ifx now m1"
    and "prints K ifx scs (after_conn ifx now) ls"
  shows "prints K ifx ((sc, cs) # scs) P ((sc_name sc, ''PASS'') # ls)"
proof -
  let ?Q = "\<lambda>m. bench_ready ifx m \<and> CONNTRACK m (host_key 80 40000) = Some \<lparr>last_seen_ns = now\<rparr>"
  have "\<exists>m1. sc_setup sc m = Inr m1 \<and> ?Q m1" if "P m" for m
    using assms(5) [OF that] unfolding after_conn_def by blast
  then have "prints K ifx ((sc, cs) # scs) P ((sc_name sc, verdict_name XDP_PASS (sc_tc sc)) # ls)"
    using assms(2-4,6) steady_hit [OF assms(1), of ifx now]
    by (intro prints_Cons [where Q = ?Q]) (simp_all add: after_conn_def bench_ready_def)
  then show ?thesis using assms(2) by (simp add: verdict_name_def moat_consts)
qed

lemma egress_row:
  assumes "rfc_headers (hdrs K)" "sc_tc sc" "sc_pkt sc = pkt_out" "returns now cs"
    and "\<And>m. IFACE_L2 m ifx \<noteq> Some 0 \<Longrightarrow> \<exists>m1. sc_setup sc m = Inr m1 \<and> bench_ready ifx m1 \<and>
      fst (walk_rules m1 DIR_OUT ifx out_parsed) = ACT_ALLOW"
    and "prints K ifx scs (\<lambda>m. IFACE_L2 m ifx \<noteq> Some 0) ls"
  shows "prints K ifx ((sc, cs) # scs) (\<lambda>m. IFACE_L2 m ifx \<noteq> Some 0) ((sc_name sc, ''PIPE(pass)'') # ls)"
proof -
  have "prints K ifx ((sc, cs) # scs) (\<lambda>m. IFACE_L2 m ifx \<noteq> Some 0) ((sc_name sc, verdict_name TC_ACT_PIPE (sc_tc sc)) # ls)"
    using assms(2-6) steady_egress [OF assms(1), of ifx now]
    by (intro prints_Cons [where Q = "\<lambda>m. bench_ready ifx m \<and> fst (walk_rules m DIR_OUT ifx out_parsed) = ACT_ALLOW"])
      (simp_all add: bench_ready_def)
  then show ?thesis using assms(2) by (simp add: verdict_name_def moat_consts)
qed

section \<open>Set-ups as the rows use them\<close>

lemma reset_setup:
  assumes "maps_ok E" "maps_total E"
  shows "\<exists>m1. bench_reset E m = Inr m1 \<and> prepared ACT_ALLOW 0 m m1 \<and> active_rules m1 = []"
  using bench_reset_ok [OF assms, of m] prepared_no_rules by blast

lemma deny_setup_rules:
  assumes "maps_ok E" "maps_total E"
  shows "\<exists>m1. deny_setup E m = Inr m1 \<and> prepared ACT_DENY 0 m m1 \<and> active_rules m1 = []"
  using deny_setup_ok [OF assms, of m] prepared_no_rules by blast

lemma allow_rules_setup:
  assumes "maps_ok E" "maps_total E" "length rs \<le> 256" "unat count = length rs"
  shows "\<exists>m1. rbind (bench_reset E m) (rules_setup E rs count) = Inr m1 \<and> prepared ACT_ALLOW count m m1 \<and> active_rules m1 = rs"
  using bench_reset_ok [OF assms(1,2), of m] rules_setup_ok [OF assms(1,2) _ assms(3,4), of ACT_ALLOW m] by auto

lemma deny_rules_setup:
  assumes "maps_ok E" "maps_total E" "length rs \<le> 256" "unat count = length rs"
  shows "\<exists>m1. rbind (deny_setup E m) (rules_setup E rs count) = Inr m1 \<and> prepared ACT_DENY count m m1 \<and> active_rules m1 = rs"
  using deny_setup_ok [OF assms(1,2), of m] rules_setup_ok [OF assms(1,2) _ assms(3,4), of ACT_DENY m] by auto

lemma prepared_after_conn:
  "prepared a count m m1 \<Longrightarrow> after_conn ifx now m \<Longrightarrow> bench_ready ifx m1 \<and> after_conn ifx now m1"
  by (auto simp: prepared_def after_conn_def bench_ready_def)

lemma conn_setup:
  assumes "maps_ok E" "maps_total E" "ct_stores K" "before_conn ifx m"
  shows "\<exists>m1. rbind (deny_setup E m) (\<lambda>m. Inr (put_conn K (host_key 80 40000) now m)) = Inr m1 \<and>
    bench_ready ifx m1 \<and> after_conn ifx now m1"
  using deny_setup_ok [OF assms(1,2), of m] assms(3,4)
  by (auto simp: prepared_def before_conn_def after_conn_def bench_ready_def put_conn_def ct_stores_def)

lemma egress_setup:
  assumes "prepared ACT_ALLOW count m m1" "active_rules m1 = rs" "rs = [] \<or> rs = many" "IFACE_L2 m ifx \<noteq> Some 0"
  shows "bench_ready ifx m1 \<and> fst (walk_rules m1 DIR_OUT ifx out_parsed) = ACT_ALLOW"
proof -
  have "\<forall>r \<in> set rs. r_action r \<noteq> - 1" using assms(3) rules_never_unset by auto
  from prepared_walk(2) [OF assms(1,2) this, of ifx out_parsed] prepared_ready [OF assms(1,4)] assms(3)
  show ?thesis by (auto simp: many_ignores_outbound)
qed

lemma egress_rows:
  fixes now' :: u64
  assumes "rfc_headers (hdrs K)" "maps_ok E" "maps_total E" "returns now ca" "returns now cb" "returns now cc"
  defines "S \<equiv> scenarios K E (Inr ()) now now'"
  shows "prints K ifx [(S ! 7, ca), (S ! 8, cb), (S ! 9, cc)] (\<lambda>m. IFACE_L2 m ifx \<noteq> Some 0)
    [(sc_name (S ! 7), ''PIPE(pass)''), (sc_name (S ! 8), ''PIPE(pass)''), (sc_name (S ! 9), ''PIPE(pass)'')]"
proof (rule egress_row [OF assms(1) _ _ assms(4)], goal_cases)
  case (3 m)
  with reset_setup [OF assms(2,3), of m] egress_setup show ?case by (auto simp: S_def scenarios_def insert_conn_def)
next
  case 4
  show ?case
  proof (rule egress_row [OF assms(1) _ _ assms(5)], goal_cases)
    case (3 m)
    with reset_setup [OF assms(2,3), of m] egress_setup [of 0 m _ "[]" ifx]
    obtain m1 where m1: "bench_reset E m = Inr m1" "bench_ready ifx m1"
      "fst (walk_rules m1 DIR_OUT ifx out_parsed) = ACT_ALLOW" by auto
    have "walk_rules (put_conn K k now' m1) dir ifx p = walk_rules m1 dir ifx p" for k dir p
      by (rule walk_rules_cong) (simp_all add: put_conn_def)
    with m1 show ?case by (simp add: S_def scenarios_def insert_conn_def) (simp add: bench_ready_def put_conn_def)
  next
    case 4
    show ?case
    proof (rule egress_row [OF assms(1) _ _ assms(6) _ prints_Nil], goal_cases)
      case (3 m)
      have "unat (ucast RULES_MAX :: u16) = length many" by (simp add: scenario_lengths)
      from allow_rules_setup [OF assms(2,3) _ this, of m] 3 egress_setup show ?case
        by (auto simp: S_def scenarios_def insert_conn_def scenario_lengths)
    qed (simp_all add: S_def scenarios_def insert_conn_def)
  qed (simp_all add: S_def scenarios_def insert_conn_def)
qed (simp_all add: S_def scenarios_def insert_conn_def)

lemma hit_rows:
  fixes now' :: u64
  assumes "rfc_headers (hdrs K)" "maps_ok E" "maps_total E"
    and "returns now ca" "returns now cb" "returns now cc" "returns now cd"
    and "prints K ifx scs (\<lambda>m. IFACE_L2 m ifx \<noteq> Some 0) ls"
  defines "S \<equiv> scenarios K E (Inr ()) now now'"
  shows "prints K ifx ((S ! 3, ca) # (S ! 4, cb) # (S ! 5, cc) # (S ! 6, cd) # scs) (after_conn ifx now)
    ((sc_name (S ! 3), ''PASS'') # (sc_name (S ! 4), ''PASS'') # (sc_name (S ! 5), ''PASS'') # (sc_name (S ! 6), ''PASS'') # ls)"
proof -
  note allow = allow_rules_setup [OF assms(2,3)] and deny = deny_rules_setup [OF assms(2,3)]
  have n: "unat (ucast RULES_MAX :: u16) = 256" by (simp add: scenario_lengths)
  have after: "prints K ifx scs (after_conn ifx now) ls"
    using assms(8) by (simp add: prints_def after_conn_def)
  have prep: "\<exists>m1. sc_setup (S ! i) m = Inr m1 \<and> bench_ready ifx m1 \<and> after_conn ifx now m1"
    if "i \<in> {3, 4, 5, 6}" "after_conn ifx now m" for i m
  proof -
    have "\<exists>a count m1. sc_setup (S ! i) m = Inr m1 \<and> prepared a count m m1"
      using that(1) allow [of many "ucast RULES_MAX" m] allow [of walk_miss "ucast RULES_MAX" m]
        deny [of deep "ucast RULES_MAX" m] allow [of "[rule_v4_dport DIR_IN ACT_ALLOW 80]" 1 m]
      by (auto simp: S_def scenarios_def insert_conn_def scenario_lengths) blast+
    with that(2) prepared_after_conn show ?thesis by blast
  qed
  have sc: "\<not> sc_tc (S ! i)" "sc_pkt (S ! i) = pkt_in" if "i \<in> {3, 4, 5, 6}" for i
    using that by (auto simp: S_def scenarios_def insert_conn_def)
  show ?thesis
    by (intro ingress_row_hit [OF assms(1), where now = now] sc prep after assms(4-7)) simp_all
qed

section \<open>Properties\<close>

definition good_calls :: "syscall list list" where
  "good_calls = replicate 10 [Interrupted [], Completed [(7, 7), (8, 9)]]"

lemma bench_start: "before_conn 1 sample_maps"
  by (simp add: before_conn_def sample_maps_def)

text \<open>
  The benchmark's table: on maps that update as documented, with the kernel's calls
  returning within the time to live of the inserted connection, the program ends and
  prints the ten verdicts its comments announce, whatever the maps held before apart from that
  connection.
\<close>

theorem bench_table:
  assumes "rfc_headers (hdrs K)" and "maps_ok E" and "maps_total E" and "ct_stores K" and "before_conn ifx m"
    and "length calls = 10" and "list_all (returns now) calls"
  shows "bench_main K E (Inr ()) ifx now now' calls m = Some (Inr (zip (map sc_name (scenarios K E (Inr ()) now now'))
    [''PASS'', ''DROP'', ''PASS'', ''PASS'', ''PASS'', ''PASS'', ''PASS'', ''PIPE(pass)'', ''PIPE(pass)'', ''PIPE(pass)'']))"
proof -
  let ?S = "scenarios K E (Inr ()) now now'"
  let ?line = "\<lambda>i v. (sc_name (?S ! i), v)"
  obtain c0 c1 c2 c3 c4 c5 c6 c7 c8 c9 where calls: "calls = [c0, c1, c2, c3, c4, c5, c6, c7, c8, c9]"
    using assms(6) by (auto simp: numeral_eq_Suc length_Suc_conv)
  have ret: "returns now c0" "returns now c1" "returns now c2" "returns now c3" "returns now c4" "returns now c5"
    "returns now c6" "returns now c7" "returns now c8" "returns now c9" using assms(7) by (simp_all add: calls)
  have tail: "prints K ifx [(?S ! 3, c3), (?S ! 4, c4), (?S ! 5, c5), (?S ! 6, c6), (?S ! 7, c7), (?S ! 8, c8), (?S ! 9, c9)]
      (after_conn ifx now) [?line 3 ''PASS'', ?line 4 ''PASS'', ?line 5 ''PASS'', ?line 6 ''PASS'',
        ?line 7 ''PIPE(pass)'', ?line 8 ''PIPE(pass)'', ?line 9 ''PIPE(pass)'']"
    by (rule hit_rows [OF assms(1-3) ret(4-7) egress_rows [OF assms(1-3) ret(8-10)]])
  have prep: "\<exists>m1. sc_setup (?S ! 2) m = Inr m1 \<and> bench_ready ifx m1 \<and> after_conn ifx now m1" if "before_conn ifx m" for m
    using conn_setup [OF assms(2-4) that] by (simp add: scenarios_def insert_conn_def)
  have "prints K ifx [(?S ! 2, c2), (?S ! 3, c3), (?S ! 4, c4), (?S ! 5, c5), (?S ! 6, c6), (?S ! 7, c7), (?S ! 8, c8), (?S ! 9, c9)]
      (before_conn ifx) [?line 2 ''PASS'', ?line 3 ''PASS'', ?line 4 ''PASS'', ?line 5 ''PASS'', ?line 6 ''PASS'',
        ?line 7 ''PIPE(pass)'', ?line 8 ''PIPE(pass)'', ?line 9 ''PIPE(pass)'']"
    by (rule ingress_row_hit [OF assms(1) _ _ ret(3) prep tail]) (simp_all add: scenarios_def insert_conn_def)
  from ingress_row_walk [OF assms(1) _ _ _ _ _ this, of "?S ! 1" now c1 ACT_DENY 0 "[]"] deny_setup_rules [OF assms(2,3)] assms(7)
  have "prints K ifx [(?S ! 1, c1), (?S ! 2, c2), (?S ! 3, c3), (?S ! 4, c4), (?S ! 5, c5), (?S ! 6, c6), (?S ! 7, c7), (?S ! 8, c8), (?S ! 9, c9)]
      (before_conn ifx) [?line 1 ''DROP'', ?line 2 ''PASS'', ?line 3 ''PASS'', ?line 4 ''PASS'', ?line 5 ''PASS'', ?line 6 ''PASS'',
        ?line 7 ''PIPE(pass)'', ?line 8 ''PIPE(pass)'', ?line 9 ''PIPE(pass)'']"
    by (simp add: calls) (simp add: scenarios_def insert_conn_def moat_consts)
  from ingress_row_walk [OF assms(1) _ _ _ _ _ this, of "?S ! 0" now c0 ACT_ALLOW 0 "[]"] reset_setup [OF assms(2,3)] assms(7)
  have "prints K ifx (zip ?S calls) (before_conn ifx) (zip (map sc_name ?S)
      [''PASS'', ''DROP'', ''PASS'', ''PASS'', ''PASS'', ''PASS'', ''PASS'', ''PIPE(pass)'', ''PIPE(pass)'', ''PIPE(pass)''])"
    by (simp add: calls scenarios_def insert_conn_def)
  with assms(5) show ?thesis by (simp add: bench_main_def prints_def)
qed

theorem bench_table_witness:
  "bench_main plain_kernel sample_env (Inr ()) 1 5 6 good_calls sample_maps = Some (Inr (zip (map sc_name (scenarios plain_kernel sample_env (Inr ()) 5 6))
    [''PASS'', ''DROP'', ''PASS'', ''PASS'', ''PASS'', ''PASS'', ''PASS'', ''PIPE(pass)'', ''PIPE(pass)'', ''PIPE(pass)'']))"
  by (rule bench_table) (simp_all add: bench_start good_calls_def list_all_iff fresh_def saturating_sub_def moat_consts)

text \<open>The scenario that is to prove that the walk reaches slot 255, with any rules in the bank.\<close>

definition slot_scenario :: "denv \<Rightarrow> rule list \<Rightarrow> scenario" where
  "slot_scenario E rules = \<lparr>sc_name = ''ingress: match at slot 255 (proves full walk)'', sc_tc = False, sc_pkt = pkt_in,
     sc_setup = (\<lambda>m. rbind (deny_setup E m) (rules_setup E rules (ucast RULES_MAX)))\<rparr>"

lemma slot_scenario_row: "scenarios K E conn now now' ! 5 = slot_scenario E deep"
  by (simp add: scenarios_def insert_conn_def slot_scenario_def)

text \<open>
  The row ``match at slot 255 (proves full walk)'' tells a walk that reaches slot 255
  from one that does not only while the connection of the row before it is not tracked: then it
  prints PASS with the allow rule in slot 255 and DROP with that rule replaced by one that misses.
  The reset between scenarios leaves the tracked connection in place, and with it the row
  prints PASS for every bank of 256 rules.
\<close>

theorem slot_255_row_is_masked:
  assumes "rfc_headers (hdrs K)" and "maps_ok E" and "maps_total E" and "returns now cs"
  shows "(before_conn ifx m \<longrightarrow>
           bench_rows K ifx [(slot_scenario E deep, cs)] m = Some (Inr [(sc_name (slot_scenario E deep), ''PASS'')]) \<and>
           bench_rows K ifx [(slot_scenario E walk_miss, cs)] m = Some (Inr [(sc_name (slot_scenario E deep), ''DROP'')])) \<and>
         (after_conn ifx now m \<longrightarrow> (\<forall>rs. length rs = 256 \<longrightarrow>
           bench_rows K ifx [(slot_scenario E rs, cs)] m = Some (Inr [(sc_name (slot_scenario E deep), ''PASS'')])))"
proof -
  have prep: "\<exists>m1. sc_setup (slot_scenario E rs) m = Inr m1 \<and> prepared ACT_DENY (ucast RULES_MAX) m m1 \<and> active_rules m1 = rs"
    if "length rs = 256" for rs m
    using deny_rules_setup [OF assms(2,3), of rs "ucast RULES_MAX" m] that by (simp add: slot_scenario_def scenario_lengths)
  have plain: "\<not> sc_tc (slot_scenario E rs)" "sc_pkt (slot_scenario E rs) = pkt_in"
    "sc_name (slot_scenario E rs) = ''ingress: match at slot 255 (proves full walk)''" for rs
    by (simp_all add: slot_scenario_def)
  have walk: "prints K ifx [(slot_scenario E rs, cs)] (before_conn ifx) [(sc_name (slot_scenario E rs),
      if rules_decide rs ACT_DENY (DIR_IN, ifx, in_parsed) = ACT_ALLOW then ''PASS'' else ''DROP'')]"
    if "rs = deep \<or> rs = walk_miss" for rs
    by (rule ingress_row_walk [OF assms(1) plain(1,2) assms(4) prep _ prints_Nil])
      (use that rules_never_unset in \<open>auto simp: scenario_lengths\<close>)
  have hit: "prints K ifx [(slot_scenario E rs, cs)] (after_conn ifx now) [(sc_name (slot_scenario E rs), ''PASS'')]"
    if "length rs = 256" for rs
    by (rule ingress_row_hit [OF assms(1) plain(1,2) assms(4) _ prints_Nil]) (use prep [OF that] prepared_after_conn in blast)
  show ?thesis
    using walk [of deep] walk [of walk_miss] hit
    by (simp add: prints_def plain deep_decides walk_miss_decides ACT_ALLOW_def ACT_DENY_def)
qed

theorem slot_255_row_is_masked_witness:
  "bench_rows plain_kernel 1 [(slot_scenario sample_env walk_miss, [Completed [(7, 7)]])]
     (put_conn plain_kernel (host_key 80 40000) 5 sample_maps) =
   Some (Inr [(''ingress: match at slot 255 (proves full walk)'', ''PASS'')]) \<and>
   bench_rows plain_kernel 1 [(slot_scenario sample_env walk_miss, [Completed [(7, 7)]])] sample_maps =
   Some (Inr [(''ingress: match at slot 255 (proves full walk)'', ''DROP'')])"
proof -
  have c: "returns 5 [Completed [(7, 7)]]" by (simp add: fresh_def saturating_sub_def moat_consts)
  have a: "after_conn 1 5 (put_conn plain_kernel (host_key 80 40000) 5 sample_maps)"
    by (simp add: after_conn_def put_conn_def plain_kernel_def sample_maps_def)
  show ?thesis
    using slot_255_row_is_masked [of plain_kernel sample_env 5 _ 1 "put_conn plain_kernel (host_key 80 40000) 5 sample_maps", OF _ _ _ c]
      slot_255_row_is_masked [of plain_kernel sample_env 5 _ 1 sample_maps, OF _ _ _ c] bench_start a
    by (simp add: scenario_lengths) (simp add: slot_scenario_def)
qed

end
