(* ===== verification/Bench_Run.thy ===== *)
theory Bench_Run
  imports Startup Bench
begin

text \<open>
  The benchmark as a program (\<open>src/crates/moatd/src/bin/bpf-bench.rs\<close>): loading the object and the
  two programs, finding the maps that its helpers write, the argument of the system call that
  runs a program, the clock, and the table of \<open>Bench\<close> behind them.
\<close>

section \<open>The argument of the system call\<close>

record test_run_attr =
  t_prog_fd :: u32
  t_retval :: u32
  t_data_size_in :: u32
  t_data_size_out :: u32
  t_data_in :: u64
  t_data_out :: u64
  t_repeat :: u32
  t_duration :: u32
  t_ctx_size_in :: u32
  t_ctx_size_out :: u32
  t_ctx_in :: u64
  t_ctx_out :: u64
  t_flags :: u32
  t_cpu :: u32
  t_batch_size :: u32

definition TestRunAttr_layout :: cty where
  "TestRunAttr_layout = Struct [C32, C32, C32, C32, C64, C64, C32, C32, C32, C32, C64, C64, C32, C32, C32]"

definition test_run_attr_val :: "test_run_attr \<Rightarrow> cval" where
  "test_run_attr_val a =
     Vs [V32 (t_prog_fd a), V32 (t_retval a), V32 (t_data_size_in a), V32 (t_data_size_out a), V64 (t_data_in a),
         V64 (t_data_out a), V32 (t_repeat a), V32 (t_duration a), V32 (t_ctx_size_in a), V32 (t_ctx_size_out a),
         V64 (t_ctx_in a), V64 (t_ctx_out a), V32 (t_flags a), V32 (t_cpu a), V32 (t_batch_size a)]"

definition REPEAT :: u32 where "REPEAT = 1000000"

text \<open>\<open>mem::zeroed\<close> and the assignments of \<open>test_run\<close>; \<open>data_in\<close> and \<open>data_out\<close> are the addresses of the packet
  and of the output buffer of 2048 bytes.\<close>

definition zeroed_attr :: test_run_attr where
  "zeroed_attr =
     \<lparr>t_prog_fd = 0, t_retval = 0, t_data_size_in = 0, t_data_size_out = 0, t_data_in = 0, t_data_out = 0, t_repeat = 0,
      t_duration = 0, t_ctx_size_in = 0, t_ctx_size_out = 0, t_ctx_in = 0, t_ctx_out = 0, t_flags = 0, t_cpu = 0,
      t_batch_size = 0\<rparr>"

definition test_attr :: "u32 \<Rightarrow> u8 list \<Rightarrow> u64 \<Rightarrow> u64 \<Rightarrow> test_run_attr" where
  "test_attr fd data data_in data_out =
     zeroed_attr\<lparr>t_prog_fd := fd, t_data_size_in := of_nat (length data), t_data_size_out := 2048,
       t_data_in := data_in, t_data_out := data_out, t_repeat := REPEAT\<rparr>"

lemma test_run_attr_size: "size_of TestRunAttr_layout = 80" "\<not> packed TestRunAttr_layout"
  by (simp_all add: TestRunAttr_layout_def align_up_def)

lemma le_bytes_zero: "le_bytes n 0 = replicate n 0"
  by (rule nth_equalityI) (simp_all add: le_bytes_def)

text \<open>What the kernel checks: nothing behind \<open>data_size_out\<close>, \<open>data_out\<close> and \<open>repeat\<close> is set, the four bytes of
  padding at the end included.\<close>

lemma test_attr_trailing_zero:
  "drop 36 (bytes_of TestRunAttr_layout (test_run_attr_val (test_attr fd data i out))) = replicate 44 0"
  by (simp add: TestRunAttr_layout_def test_run_attr_val_def test_attr_def zeroed_attr_def align_up_def
      le_bytes_zero flip: replicate_add)

section \<open>The clock\<close>

text \<open>\<open>monotonic_ns\<close> on the seconds and nanoseconds of \<open>clock_gettime\<close>.\<close>

definition monotonic_ns :: "64 word \<times> 64 word \<Rightarrow> u64" where
  "monotonic_ns ts = fst ts * 1000000000 + snd ts"

lemma monotonic_ns_exact:
  assumes "unat s < 2 ^ 34" "unat n < 1000000000"
  shows "unat (monotonic_ns (s, n)) = unat s * 1000000000 + unat n"
proof -
  have "unat s * 1000000000 + unat n < 2 ^ 64" using assms by simp
  then show ?thesis by (simp add: monotonic_ns_def unat_word_ariths)
qed

section \<open>Loading\<close>

definition bench_program :: "aya \<Rightarrow> ebpf \<Rightarrow> string \<Rightarrow> (prog_kind \<Rightarrow> (err, unit) result) \<Rightarrow> (err, u32) result" where
  "bench_program P eb name try_into =
     (case program_mut P eb name of
        None \<Rightarrow> Inl (Io_error name)
      | Some k \<Rightarrow> rbind (try_into k) (\<lambda>_. rbind (prog_load P name) (\<lambda>_. prog_fd P name)))"

definition bench_load :: "aya \<Rightarrow> (err, ebpf \<times> u32 \<times> u32) result" where
  "bench_load P =
     rbind (load_object P moatd_bpf) (\<lambda>eb.
     rbind (bench_program P eb ''moat_ingress'' (try_xdp P)) (\<lambda>xdp_fd.
     rbind (bench_program P eb ''moat_egress'' (try_classifier P)) (\<lambda>tc_fd.
     Inr (eb, xdp_fd, tc_fd))))"

text \<open>The helpers look their map up in the object, by name and value type, before they write it.\<close>

definition bench_map :: "aya \<Rightarrow> ebpf \<Rightarrow> string \<Rightarrow> (map_kind \<Rightarrow> (err, unit) result) \<Rightarrow> (err, unit) result" where
  "bench_map P eb name try_from =
     (case map_mut P eb name of None \<Rightarrow> Inl (Map_error name) | Some k \<Rightarrow> try_from k)"

definition bench_denv :: "aya \<Rightarrow> ebpf \<Rightarrow> denv \<Rightarrow> denv" where
  "bench_denv P eb E = E\<lparr>
     rules_set := (\<lambda>t i r. rbind (bench_map P eb ''RULES'' (try_array P (size_of Rule_layout))) (\<lambda>_. rules_set E t i r)),
     policy_set := (\<lambda>t i v. rbind (bench_map P eb ''DEFAULT_POLICY'' (try_array P 1)) (\<lambda>_. policy_set E t i v)),
     config_set := (\<lambda>t i c. rbind (bench_map P eb ''CONFIG'' (try_array P (size_of GlobalConfig_layout))) (\<lambda>_. config_set E t i c))\<rparr>"

definition bench_conntrack :: "aya \<Rightarrow> ebpf \<Rightarrow> (err, unit) result" where
  "bench_conntrack P eb = bench_map P eb ''CONNTRACK'' (try_hash P (size_of ConnKey_layout) (size_of ConnVal_layout))"

text \<open>\<open>main\<close>: \<open>clock\<close> and \<open>clock'\<close> are read when the two connections are inserted.\<close>

definition bench_run ::
    "aya \<Rightarrow> kernel \<Rightarrow> denv \<Rightarrow> u32 \<Rightarrow> u64 \<times> u64 \<Rightarrow> u64 \<times> u64 \<Rightarrow> syscall list list \<Rightarrow> bpf_maps \<Rightarrow>
     (err, (string \<times> string) list) result option" where
  "bench_run P K E ifx clock clock' calls m =
     (case bench_load P of
        Inl e \<Rightarrow> Some (Inl e)
      | Inr (eb, _, _) \<Rightarrow>
          bench_main K (bench_denv P eb E) (bench_conntrack P eb) ifx (monotonic_ns clock) (monotonic_ns clock') calls m)"

section \<open>The benchmark finds what it asks for\<close>

lemma bench_program_declared:
  assumes "aya_law P" "map_of (programs eb) name = Some k" "try_into k = Inr ()" "prog_load P name = Inr ()"
  shows "\<exists>fd. bench_program P eb name try_into = Inr fd"
  using assms aya_lawD(12) [OF assms(1,4)] by (auto simp: bench_program_def aya_lawD(2) is_ok_iff)

lemma bench_load_declared:
  assumes "aya_law P" "load_object P moatd_bpf = Inr eb" "prog_load P ''moat_ingress'' = Inr ()" "prog_load P ''moat_egress'' = Inr ()"
  shows "\<exists>x t. bench_load P = Inr (moatd_bpf, x, t)"
proof -
  have eb: "eb = moatd_bpf" using aya_lawD(1) [OF assms(1,2)] .
  obtain x where x: "bench_program P moatd_bpf ''moat_ingress'' (try_xdp P) = Inr x"
    using bench_program_declared [of P moatd_bpf _ Xdp_kind "try_xdp P"] aya_lawD(3) [OF assms(1)] assms(1,3)
    by (force simp: moatd_bpf_def)
  obtain t where t: "bench_program P moatd_bpf ''moat_egress'' (try_classifier P) = Inr t"
    using bench_program_declared [of P moatd_bpf _ Classifier_kind "try_classifier P"] aya_lawD(4) [OF assms(1)] assms(1,4)
    by (force simp: moatd_bpf_def)
  show ?thesis using assms(2) eb x t by (simp add: bench_load_def)
qed

lemma bench_maps_declared:
  assumes "aya_law P"
  shows "bench_denv P moatd_bpf E = E" "bench_conntrack P moatd_bpf = Inr ()"
  using aya_lawD(6,10,11) [OF assms] by (simp_all add: bench_denv_def bench_conntrack_def bench_map_def moatd_bpf_def)

section \<open>Properties\<close>



end
