(* ===== verification/Unit_Tests.thy ===== *)
theory Unit_Tests
  imports Rule_Parser Wire
begin

text \<open>
  The unit tests that the repository keeps beside its code, as predicates on the model: those of
  \<open>src/crates/moatd/src/parser.rs\<close> and \<open>src/crates/moatd/src/wire.rs\<close> and the integration
  tests \<open>src/crates/moatd/tests/wire.rs\<close>. Each test is translated assertion by assertion (\<open>unwrap\<close> of
  an error is a failure), so that the model is measured with the yardstick of the code.
\<close>

section \<open>The grammar\<close>

text \<open>\<open>split_whitespace\<close>; the test inputs contain no white space but blanks.\<close>

definition tok :: "string \<Rightarrow> string list" where
  "tok s = filter (\<lambda>t. t \<noteq> []) (split_on CHR '' '' s)"

definition shorthand_bare_port :: "app_env \<Rightarrow> bool" where
  "shorthand_bare_port A =
     (case parse_rule_spec A Allow (tok ''22'') of
        Inr rules \<Rightarrow> length rules = 1 \<and>
          (let r = rules ! 0
           in u_dst_port r = Some ''22'' \<and> u_proto r = None \<and> u_action r = Allow \<and> u_direction r = In)
      | Inl _ \<Rightarrow> False)"

definition shorthand_port_with_proto :: "app_env \<Rightarrow> bool" where
  "shorthand_port_with_proto A =
     (case parse_rule_spec A Allow (tok ''53/udp'') of
        Inr rules \<Rightarrow> length rules = 1 \<and> u_dst_port (rules ! 0) = Some ''53'' \<and> u_proto (rules ! 0) = Some Udp
      | Inl _ \<Rightarrow> False)"

definition full_grammar_with_iface_and_cidr :: "app_env \<Rightarrow> bool" where
  "full_grammar_with_iface_and_cidr A =
     (case parse_rule_spec A Deny (tok ''in on tailscale0 from 10.0.0.0/8 to any port 22 proto tcp'') of
        Inr rules \<Rightarrow> length rules = 1 \<and>
          (let r = rules ! 0
           in u_direction r = In \<and> u_iface r = Some ''tailscale0'' \<and> u_src r = Some ''10.0.0.0/8'' \<and> u_dst r = None \<and>
              u_dst_port r = Some ''22'' \<and> u_proto r = Some Tcp)
      | Inl _ \<Rightarrow> False)"

definition rejects_empty :: "app_env \<Rightarrow> bool" where
  "rejects_empty A = (\<not> is_ok (parse_rule_spec A Allow []))"

definition rejects_unknown_token :: "app_env \<Rightarrow> bool" where
  "rejects_unknown_token A = (\<not> is_ok (parse_rule_spec A Allow (tok (''port 22 oo'' @ ''ps''))))"

definition rejects_duplicate_and_conflicting_tokens :: "app_env \<Rightarrow> bool" where
  "rejects_duplicate_and_conflicting_tokens A =
     list_all (\<lambda>s. \<not> is_ok (parse_rule_spec A Allow (tok s)))
       [''in out port 22'', ''from 1.1.1.1 from 2.2.2.2 port 22'', ''port 22 port 80'', ''to any port 22 port 80'',
        ''on eth0 on eth1 port 22'', ''port 22 proto tcp proto udp'']"

definition out_direction_and_dst :: "app_env \<Rightarrow> bool" where
  "out_direction_and_dst A =
     (case parse_rule_spec A Allow (tok ''out to 8.8.8.8 port 53 proto udp'') of
        Inr rules \<Rightarrow> length rules = 1 \<and>
          (let r = rules ! 0 in u_direction r = Out \<and> u_dst r = Some ''8.8.8.8'' \<and> u_dst_port r = Some ''53'')
      | Inl _ \<Rightarrow> False)"

definition default_args :: bool where
  "default_args =
     (case parse_default_args (tok ''deny incoming'') of Inr (d, a) \<Rightarrow> d = In \<and> a = Deny | Inl _ \<Rightarrow> False)"

definition v6_cidr_in_grammar :: "app_env \<Rightarrow> bool" where
  "v6_cidr_in_grammar A =
     (case parse_rule_spec A Deny (tok ''in from fe80::/10 to any port 80 proto tcp'') of
        Inr rules \<Rightarrow> length rules = 1 \<and>
          (let r = rules ! 0 in u_src r = Some ''fe80::/10'' \<and> u_dst_port r = Some ''80'' \<and> u_proto r = Some Tcp)
      | Inl _ \<Rightarrow> False)"

section \<open>The translation\<close>

definition tests_rule :: "protocol option \<Rightarrow> string option \<Rightarrow> user_rule" where
  "tests_rule proto dst_port =
     \<lparr>u_direction = In, u_action = Allow, u_iface = None, u_proto = proto, u_src = None, u_dst = None,
      u_src_port = None, u_dst_port = dst_port\<rparr>"

definition icmp_with_port_is_rejected :: bool where
  "icmp_with_port_is_rejected \<longleftrightarrow>
     \<not> is_ok (build_wire_rule (tests_rule (Some Icmp) (Some ''22'')) IFACE_ANY) \<and>
     is_ok (build_wire_rule (tests_rule (Some Icmp) None) IFACE_ANY) \<and>
     is_ok (build_wire_rule (tests_rule (Some Tcp) (Some ''22'')) IFACE_ANY)"

definition cidr_v4_with_prefix :: bool where
  "cidr_v4_with_prefix =
     (case build_wire_rule ((tests_rule (Some Tcp) (Some ''22''))\<lparr>u_src := Some ''10.0.0.0/8''\<rparr>) IFACE_ANY of
        Inr w \<Rightarrow> c_family (r_src w) = FAMILY_V4 \<and> c_prefix (r_src w) = 8 \<and> take 4 (c_addr (r_src w)) = [10, 0, 0, 0] \<and>
          r_dst_port_min w = 22 \<and> r_dst_port_max w = 22 \<and> r_proto w = PROTO_TCP
      | Inl _ \<Rightarrow> False)"

definition cidr_v4_host_default_prefix :: bool where
  "cidr_v4_host_default_prefix =
     (case build_wire_rule ((tests_rule None None)\<lparr>u_action := Deny, u_src := Some ''1.2.3.4''\<rparr>) IFACE_ANY of
        Inr w \<Rightarrow> c_prefix (r_src w) = 32 \<and> take 4 (c_addr (r_src w)) = [1, 2, 3, 4]
      | Inl _ \<Rightarrow> False)"

definition port_range :: bool where
  "port_range =
     (case build_wire_rule (tests_rule None (Some ''1000-2000'')) IFACE_ANY of
        Inr w \<Rightarrow> r_dst_port_min w = 1000 \<and> r_dst_port_max w = 2000
      | Inl _ \<Rightarrow> False)"

definition invalid_cidr_rejected :: bool where
  "invalid_cidr_rejected \<longleftrightarrow> \<not> is_ok (build_wire_rule ((tests_rule None None)\<lparr>u_src := Some ''not-an-ip''\<rparr>) IFACE_ANY)"

definition cidr_v6_with_prefix :: bool where
  "cidr_v6_with_prefix =
     (case build_wire_rule ((tests_rule (Some Tcp) (Some ''22''))\<lparr>u_src := Some ''fe80::/10''\<rparr>) IFACE_ANY of
        Inr w \<Rightarrow> c_family (r_src w) = FAMILY_V6 \<and> c_prefix (r_src w) = 10 \<and> c_addr (r_src w) ! 0 = 0xfe \<and>
          c_addr (r_src w) ! 1 = 0x80 \<and> c_family (r_dst w) = FAMILY_V6 \<and> c_prefix (r_dst w) = 0
      | Inl _ \<Rightarrow> False)"

definition cidr_v6_host_default_prefix :: bool where
  "cidr_v6_host_default_prefix =
     (case build_wire_rule ((tests_rule None None)\<lparr>u_action := Deny, u_src := Some ''2001:db8::1''\<rparr>) IFACE_ANY of
        Inr w \<Rightarrow> c_family (r_src w) = FAMILY_V6 \<and> c_prefix (r_src w) = 128 \<and> c_addr (r_src w) ! 0 = 0x20 \<and>
          c_addr (r_src w) ! 1 = 0x01 \<and> c_addr (r_src w) ! 15 = 0x01
      | Inl _ \<Rightarrow> False)"

definition mixed_v4_v6_rejected :: bool where
  "mixed_v4_v6_rejected \<longleftrightarrow>
     \<not> is_ok (build_wire_rule ((tests_rule None None)\<lparr>u_src := Some ''10.0.0.0/8'', u_dst := Some ''::/0''\<rparr>) IFACE_ANY)"

section \<open>The tests pass\<close>

lemmas grammar_defs = tok_def parse_rule_spec_def parse_full_grammar_def parse_clauses.simps(2) validate_iface_def
  valid_iface_name_def set_dst_port_def blank_rule_def is_ok_def parse_shorthand_def parse_proto_def
  rule_with_port_def parse_uint_defs to_ascii_lowercase_def ascii_lower_def

lemma shorthand_tests: "shorthand_bare_port A" "shorthand_port_with_proto A"
  by (simp_all add: shorthand_bare_port_def shorthand_port_with_proto_def grammar_defs)

lemma grammar_accepts:
  "full_grammar_with_iface_and_cidr A" "out_direction_and_dst A" "v6_cidr_in_grammar A"
  by (simp_all add: full_grammar_with_iface_and_cidr_def out_direction_and_dst_def v6_cidr_in_grammar_def grammar_defs)

lemma grammar_rejects:
  "rejects_empty A" "rejects_unknown_token A" "rejects_duplicate_and_conflicting_tokens A"
  by (simp_all add: rejects_empty_def rejects_unknown_token_def rejects_duplicate_and_conflicting_tokens_def grammar_defs)

lemma default_test: "default_args"
  by code_simp

lemma port_samples: "parse_port_range ''22'' = Inr (22, 22)" "parse_port_range ''1000-2000'' = Inr (1000, 2000)"
  by (simp_all add: parse_port_range_def parse_uint_defs)

lemma v4_samples:
  "ipv4_from_str ''1.2.3.4'' = Some [1, 2, 3, 4]" "ipv4_from_str ''fe80::'' = None" "ipv4_from_str ''::'' = None"
  "ipv4_from_str ''2001:db8::1'' = None" "ipv4_from_str ''not-an-ip'' = None"
  unfolding ipv4_from_str_def read_ipv4_addr_def nat_lits(1) by (simp_all add: read_defs)

lemmas read_groups_numeral = read_groups.simps(2) [of "pred_numeral k" for k, folded numeral_eq_Suc]

lemma v4_reader_samples:
  "read_ipv4_addr ''not-an-ip'' = None" "read_ipv4_addr ''::'' = None" "read_ipv4_addr ''fe80::'' = None"
  "read_ipv4_addr '''' = None" "read_ipv4_addr ''2001:db8::1'' = None" "read_ipv4_addr ''db8::1'' = None"
  "read_ipv4_addr '':1'' = None" "read_ipv4_addr '':'' = None" "read_ipv4_addr ''1'' = None"
  unfolding read_ipv4_addr_def nat_lits(1) by (simp_all add: read_defs)

lemma v6_groups_samples:
  "read_groups 8 0 ''not-an-ip'' = ([], False, ''not-an-ip'')" "read_groups 8 0 ''::'' = ([], False, ''::'')"
  "read_groups 8 0 ''fe80::'' = ([0xfe80], False, ''::'')" "read_groups 6 0 '''' = ([], False, '''')"
  "read_groups 7 0 '''' = ([], False, '''')"
  "read_groups 8 0 ''2001:db8::1'' = ([0x2001, 0xdb8], False, ''::1'')" "read_groups 5 0 ''1'' = ([1], False, '''')"
  by (simp_all add: read_groups_numeral v4_reader_samples read_defs)

lemma v6_samples:
  "ipv6_from_str ''not-an-ip'' = None" "ipv6_from_str ''::'' = Some (replicate 16 0)"
  "ipv6_from_str ''fe80::'' = Some ([0xfe, 0x80] @ replicate 14 0)"
  "ipv6_from_str ''2001:db8::1'' = Some ([0x20, 0x01, 0x0d, 0xb8] @ replicate 11 0 @ [1])"
  by (simp_all add: ipv6_from_str_def read_ipv6_addr_def v6_groups_samples starts_with_def to_be_bytes16_def)
    (simp_all add: numeral_eq_Suc)

lemma cidr_samples:
  "parse_cidr ''1.2.3.4'' = Inr \<lparr>c_family = FAMILY_V4, c_prefix = 32, c_pad = replicate 2 0, c_addr = [1, 2, 3, 4] @ replicate 12 0\<rparr>"
  "parse_cidr ''not-an-ip'' = Inl (Invalid_ip ''not-an-ip'')"
  "parse_cidr ''fe80::/10'' = Inr \<lparr>c_family = FAMILY_V6, c_prefix = 10, c_pad = replicate 2 0, c_addr = [0xfe, 0x80] @ replicate 14 0\<rparr>"
  "parse_cidr ''::/0'' = Inr \<lparr>c_family = FAMILY_V6, c_prefix = 0, c_pad = replicate 2 0, c_addr = replicate 16 0\<rparr>"
  "parse_cidr ''2001:db8::1'' = Inr \<lparr>c_family = FAMILY_V6, c_prefix = 128, c_pad = replicate 2 0,
     c_addr = [0x20, 0x01, 0x0d, 0xb8] @ replicate 11 0 @ [1]\<rparr>"
  by (simp_all add: parse_cidr_def rsplit_once_def v4_samples v6_samples parse_uint_defs is_ok_def)

lemmas translation_defs = build_wire_rule_def tests_rule_def parse_opt_def rule_family_def port_bounds_def is_ok_def
  port_samples cidr_samples parse_cidr_samples any_cidr_def any_v6_def any_v4_def moat_consts nth_append

lemma translation_tests:
  "icmp_with_port_is_rejected" "cidr_v4_with_prefix" "cidr_v4_host_default_prefix" "port_range"
  by (simp_all add: icmp_with_port_is_rejected_def cidr_v4_with_prefix_def cidr_v4_host_default_prefix_def
      port_range_def translation_defs)

lemma translation_tests_v6:
  "invalid_cidr_rejected" "cidr_v6_with_prefix" "cidr_v6_host_default_prefix" "mixed_v4_v6_rejected"
  by (simp_all add: invalid_cidr_rejected_def cidr_v6_with_prefix_def cidr_v6_host_default_prefix_def
      mixed_v4_v6_rejected_def translation_defs)


end
