(* ===== verification/Spec2Isabelle.thy ===== *)
theory Spec2Isabelle
  imports Service Bench_Run Unit_Tests
begin

text \<open>
  A verification development for moatd, a host firewall: two eBPF programs filter the packets of
  every interface, a daemon loads them and keeps their maps, a command line talks to the
  daemon over a Unix socket, and a benchmark drives the programs with crafted packets.

  \<^bold>\<open>How the parts interact.\<close> \<open>moat_ingress\<close> (XDP) and \<open>moat_egress\<close> (TC) read the rules,
  default policies and configuration from BPF maps; the outbound program records flows in
  \<open>CONNTRACK\<close>, which the inbound one consults; dropped packets go, rate limited, into the
  ring buffer \<open>EVENTS\<close>. The daemon holds the rule set in memory and in a TOML file. Its start
  (\<open>run_daemon\<close>) loads the programs, attaches them, takes the maps out of the object by name,
  reads the file, writes the maps, and only then binds the socket. After that several tasks run
  concurrently and share the daemon's state behind a mutex. A client task reads a request and
  holds the mutex while it changes the rule set, saves the file, translates every rule and
  writes it into the inactive one of two banks of \<open>RULES\<close>, then publishes the bank with one
  write of \<open>CONFIG\<close>. A watcher polls sysfs, attaches the programs to new interfaces and
  writes the rules again when an interface that a rule names changes. A drainer groups the
  drop events and logs them.

  \<^bold>\<open>Theories and sources\<close> (all under \<open>src/crates\<close>).
  \<^item> \<open>Moat_Prelude\<close>: results, checked and saturating arithmetic, byte orders; the contracts
    \<open>event_invariant\<close>, \<open>simulation\<close> and \<open>codec\<close> as locales.
  \<^item> \<open>Rust_Std\<close>: what the code uses of the standard library: splitting and trimming strings,
    \<open>str::parse\<close> for integers, IPv4 and IPv6 addresses, printing, C strings and UTF-8.
  \<^item> \<open>Moat_Common\<close>: \<open>moatd-common/src/lib.rs\<close>: constants, wire structs, control protocol.
  \<^item> \<open>Abi\<close>: the \<open>repr(C)\<close> layouts of these structs and their bytes (locale \<open>pod\<close>, interpreted
    for each of the seven structs).
  \<^item> \<open>Cidr\<close>, \<open>Packet\<close>, \<open>Rule_Walk\<close>, \<open>Data_Path\<close>: \<open>moatd-ebpf/src/main.rs\<close>: prefix tests, the
    packet parser over raw memory, the rule walk, the two programs as functions on the maps
    (record \<open>bpf_maps\<close>: one field per map), with runs of packets on all CPUs, loads,
    evictions and drains as the inductive relation \<open>dp_run\<close>.
  \<^item> \<open>Wire\<close>: \<open>moatd/src/wire.rs\<close>: user rules to wire rules, and interfaces over sysfs.
  \<^item> \<open>Rule_Parser\<close>: \<open>moatd/src/parser.rs\<close> and \<open>apps.rs\<close>: the grammar and the profiles.
  \<^item> \<open>Store\<close>: \<open>moatd/src/store.rs\<close>: loading and saving, a save as the file-system states it
    passes through.
  \<^item> \<open>Daemon\<close>, \<open>Control_Socket\<close>, \<open>Link_Watch\<close>, \<open>Event_Log\<close>, \<open>Cli\<close>: \<open>moatd/src/bin/moatd.rs\<close>:
    the request handlers and the synchronisation (record \<open>daemon_state\<close>, which also logs
    every state of the maps a packet can meet), frames, server, client over a connection that
    may fail at any point (record \<open>link\<close>), the binding of the socket, attaching and the
    watcher, the block log from the bytes of the ring buffer to the printed lines, the
    commands.
  \<^item> \<open>Startup\<close>: \<open>run_daemon\<close> up to its loop, with the object that \<open>moatd-ebpf/src/main.rs\<close>
    declares (\<open>moatd_bpf\<close>).
  \<^item> \<open>Service\<close>: the loop of \<open>run_daemon\<close> and the tasks it spawns, as an interleaving of steps
    (\<open>service_run\<close>): a step of a task is what the code does between two \<open>await\<close>s, a section
    under the mutex is one step, and packets, evictions, ticks, time-outs and signals are
    steps between them.
  \<^item> \<open>Bench\<close>, \<open>Bench_Run\<close>: \<open>moatd/src/bin/bpf-bench.rs\<close>: crafted packets and rules, the ten
    scenarios; loading, the argument of the system call, the whole program.
  \<^item> \<open>Unit_Tests\<close>: the tests in \<open>parser.rs\<close>, \<open>wire.rs\<close> and \<open>moatd/tests/wire.rs\<close>, run on the
    model.
  \<^item> \<open>Firewall\<close>: lemmas that several components share: what a request does to the data path,
    what a rule command sends.

  \<^bold>\<open>What is shown.\<close> Of the parser: it computes a reference parser on the bytes of the packet,
  reads nothing else, and neither VLAN tags nor extension headers hide anything from it. Of
  the prefix tests: they compare the leading bits. Of the walk: the first match decides
  (locale \<open>first_match\<close>, interpreted for wire rules and for user rules), and a wire rule
  matches what its user rule means (locale \<open>first_match_refinement\<close>). Of the programs: every
  tracked connection was opened by an allowed packet, replies pass, the log is rate limited
  and truthful. Of the layouts: no padding, so both sides read the same values. Of the
  daemon: it refines an abstract one (locale \<open>simulation\<close>), \<open>Ok\<close> means in force, switching
  rules is atomic for the packets, a save is atomic for a crash, and healthy requests
  succeed. Of the start: what the loader asks for is what the eBPF crate declares, and the
  daemon is never ready without its policy. Of the tasks: run alone they are the sequential
  functions; concurrent clients are linearizable. Of frames, grammar and listing: round
  trips. Of the whole, in this theory: in every run, both programs enforce the requested
  policy, nothing comes in unasked, the served requests survive a stop at any moment, and a
  command that reports success has taken effect. Some theorems state behaviour that is not
  what the code means to do: a rule that does not translate blocks the daemon, a failed
  configuration write exposes the live bank, an interface that flaps between polls is
  missed, an icmp rule with an IPv6 network is dead, unknown protocols share a flow, one
  listing reads back differently, and one row of the benchmark does not prove what it says.

  \<^bold>\<open>Bounds.\<close> The loops of the programs are bounded in the source and are recursions on the same
  bound: 256 rules (\<open>RULES_MAX\<close>), 4 extension headers within 64 bytes. The loops of user
  space recurse on their input, and the loop of the service is the list of steps of a run. The
  retry loop of the benchmark consumes the kernel's answers; a list that ends in
  interruptions is a loop that has not returned. Machine integers are words of their width;
  additions that the source checks or saturates are checked or saturated here.

  \<^bold>\<open>What is a parameter.\<close> The layout of the headers (crate network-types), replacement in the LRU
  map and room in the ring buffer, updates of array maps, the crate aya (loading, programs,
  maps by name, typed views), sysfs, file operations, TOML, JSON, the failures of a
  connection, attach calls, \<open>if_indextoname\<close>, \<open>systemctl\<close>, the kernel's test runs. What the
  code relies on of them is a named predicate (\<open>rfc_headers\<close>, \<open>ct_lru\<close>, \<open>ct_stores\<close>,
  \<open>maps_ok\<close>, \<open>maps_total\<close>, \<open>aya_law\<close>, \<open>toml_round_trip\<close>, \<open>json_round_trip\<close>, \<open>link_law\<close>,
  \<open>sysfs_listed\<close>, \<open>bind_law\<close>), and each is shown to hold of a concrete instance.

  \<^bold>\<open>Not modelled.\<close> The inside of aya and of the kernel's verifier, the outcome of sd_notify (only
  logged), log lines other than those of the block log, argument parsing by clap (a command
  is a value of \<open>cmd\<close>), the build scripts (they run before there is a program), the durations that the
  benchmark measures, and real time: a time-out or a tick may be any step of a run. A step
  under the mutex is atomic for the other tasks; what packets meet inside it is treated in
  \<open>Daemon\<close>. The run theorems on the policy assume steps that are \<open>healthy\<close>: a request that fails
  half-way and a change of interfaces between the watcher's snapshot and their use are
  outside them; their effects are theorems of their own.
\<close>

section \<open>The system as a whole\<close>

lemma sample_sysfs_net: "sysfs_listed (net sample_env)"
  by (simp add: sample_env_def sample_sysfs_listed)

text \<open>A file format that knows one more rule set, and a codec that knows one request.\<close>

definition io_for :: "on_disk \<Rightarrow> io_env" where
  "io_for od = sample_io\<lparr>to_toml := (\<lambda>x. if x = od then Inr ''doc'' else to_toml sample_io x),
     from_toml := (\<lambda>s. if s = ''doc'' then Inr od else from_toml sample_io s)\<rparr>"

lemma io_for_laws: "toml_round_trip (io_for od)" "io_read (io_for od)"
  by (auto simp: io_for_def toml_round_trip_def sample_io_def split: if_splits)

definition json_for :: "request \<Rightarrow> json" where
  "json_for req = \<lparr>request_to_json = (\<lambda>q. if q = req then Inr [1] else Inl (Serde_error ''unsupported'')),
     request_of_json = (\<lambda>b. if b = [1] then Inr req else Inl (Serde_error ''syntax'')),
     response_to_json = (\<lambda>r. if r = Resp_Ok then Inr [2] else Inl (Serde_error ''unsupported'')),
     response_of_json = (\<lambda>b. if b = [2] then Inr Resp_Ok else Inl (Serde_error ''syntax''))\<rparr>"

lemma json_for_law: "json_round_trip (json_for req)"
  by (auto simp: json_round_trip_def json_for_def split: if_splits)

definition closed_od :: on_disk where
  "closed_od = on_disk_default\<lparr>d_default_in := Deny\<rparr>"

abbreviation deny_incoming :: request where
  "deny_incoming \<equiv> Req_SetDefault In Deny"

definition close_env :: denv where
  "close_env = sample_env\<lparr>io := io_for closed_od\<rparr>"

definition sample_world :: world where
  "sample_world = \<lparr>w_json = json_for deny_incoming, w_kernel = plain_kernel, w_filter = (\<lambda>_. True), w_indextoname = (\<lambda>_. None)\<rparr>"

lemma sample_world_simps [simp]: "w_kernel sample_world = plain_kernel" "w_json sample_world = json_for deny_incoming"
  by (simp_all add: sample_world_def)

lemma close_env_laws: "maps_ok close_env" "maps_total close_env" "sysfs_listed (net close_env)" "net close_env = net sample_env"
  "toml_round_trip (io close_env)" "io_read (io close_env)"
  using sample_env_laws(1,2) sample_sysfs_net by (auto simp: close_env_def maps_ok_def maps_total_def io_for_laws)

definition close_host :: machine where
  "close_host = sample_host\<lparr>h_env := close_env\<rparr>"

text \<open>A service that has just started without a rules file, with an interface that has no link-layer
  header.\<close>

lemma sample_booted:
  obtains x where "booted close_host Map.empty closed_maps (serving x)" "ds_on_disk (shared x) = on_disk_default"
    "IFACE_L2 (kmaps (shared x)) = [3 \<mapsto> 0]" "last_snapshot x = iface_snapshot (net sample_env)"
proof -
  obtain st where st: "run_daemon close_host [''eth0''] no_socket Map.empty closed_maps = Inr st"
    using sample_host_starts [OF close_env_laws(2)] by (auto simp: close_host_def)
  have none: "initial_attach no_attach S filt snap [''eth0''] (Map.empty, m) = (Map.empty, m)" for S filt snap m
    by (simp add: attach_to_iface_def attach_xdp_with_fallback_def no_attach_def split: option.split)
  have fields: "h_attach close_host = no_attach" "h_env close_host = close_env" "h_watch_net close_host = net sample_env"
    by (simp_all add: close_host_def sample_host_def sample_env_def)
  from run_daemon_started [OF st] none obtain ns where
    sd: "start_daemon close_env ns Map.empty closed_maps = Inr (shared (st_watch st))"
    and snap: "last_snapshot (st_watch st) = iface_snapshot (net sample_env)"
    unfolding fields by (metis prod.inject)
  obtain w0 where w0: "sync_all close_env w0 = (Inr (), shared (st_watch st))" "kmaps w0 = closed_maps"
    "ds_on_disk (shared (st_watch st)) = file_rules (io close_env) Map.empty"
    using start_daemon_sync [OF sd] by metis
  have "IFACE_L2 (kmaps (shared (st_watch st))) = IFACE_L2 closed_maps"
    using loaderD(2) [OF loader_sync_all, of close_env w0] by (simp add: w0)
  moreover have "booted close_host Map.empty closed_maps (serving (st_watch st))"
    unfolding booted_def fields no_file_rules using st
    by (auto simp: close_env_laws sample_sysfs_net closed_maps_def sample_maps_def wf_on_disk_def on_disk_default_def)
  ultimately show ?thesis using that snap w0(3) by (simp add: no_file_rules closed_maps_def)
qed

lemma close_dispatched:
  assumes "daemon_inv w" "ds_on_disk w = on_disk_default"
  shows "\<exists>w'. dispatch close_env deny_incoming w = (Resp_Ok, w')"
proof (rule dispatch_succeeds [OF close_env_laws(2) assms(1)])
  have od: "spec_step deny_incoming (ds_on_disk w) = closed_od" by (simp add: assms(2) closed_od_def)
  have "fst (save (io_for closed_od) files RULES_FILE closed_od) = Inr ()" for files
    by (simp add: save_def io_for_def sample_io_def has_parent_def RULES_FILE_def Let_def)
  then show "fst (save (io close_env) (disk w) RULES_FILE (spec_step deny_incoming (ds_on_disk w))) = Inr ()"
    unfolding od by (simp add: close_env_def)
  show "is_ok (translate_rules (net close_env) (d_rules (spec_step deny_incoming (ds_on_disk w))))"
    unfolding od by (simp add: closed_od_def on_disk_default_def)
qed simp

text \<open>The service after a client has asked to \<open>default deny incoming\<close>, before it reads its answer.\<close>

definition closing :: "service \<Rightarrow> (event \<times> service) list" where
  "closing s0 =
     (let s1 = step sample_world (Accept 7) s0; s2 = step sample_world (Read_request 7 [0, 0, 0, 1, 1]) s1
      in [(Accept 7, s0), (Read_request 7 [0, 0, 0, 1, 1], s1), (Lock 7 close_env, s2)])"

lemma sample_closed:
  obtains s0 s where "booted close_host Map.empty closed_maps s0" "service_run sample_world s0 (closing s0) s"
    "all_healthy (closing s0)" "keeps_format (io close_env) (closing s0)" "ds_on_disk (shared (watch s)) = closed_od"
    "IFACE_L2 (kmaps (shared (watch s))) = [3 \<mapsto> 0]" "CONNTRACK (kmaps (shared (watch s))) = Map.empty"
    "served s = [(7, deny_incoming, Resp_Ok)]" "running s" "clients s 7 = Some (Replying Resp_Ok)"
proof -
  obtain x where x: "booted close_host Map.empty closed_maps (serving x)" "ds_on_disk (shared x) = on_disk_default"
    "IFACE_L2 (kmaps (shared x)) = [3 \<mapsto> 0]" "last_snapshot x = iface_snapshot (net sample_env)" by (rule sample_booted)
  let ?a = "serving x"
  let ?b = "step sample_world (Accept 7) ?a"
  let ?c = "step sample_world (Read_request 7 [0, 0, 0, 1, 1]) ?b"
  have inv: "daemon_inv (shared x)" using booted_inv(1) [OF x(1)] by (simp add: service_inv_def serving_def)
  have "read_frame [0, 0, 0, 1, 1] = Inr ([1], [])"
    by (simp add: read_frame_def read_exact_def be_word_def MAX_FRAME_BYTES_def)
  then have rd: "client_read (json_for deny_incoming) [0, 0, 0, 1, 1] = Locking deny_incoming"
    by (simp add: client_read_def json_for_def)
  obtain w' where d: "dispatch close_env deny_incoming (shared x) = (Resp_Ok, w')"
    using close_dispatched [OF inv x(2)] by blast
  have s1: "clients ?b 7 = Some Reading" "running ?b" by (simp_all add: set_client_def serving_def)
  have s2: "clients ?c 7 = Some (Locking deny_incoming)" "watch ?c = x" "seen ?c = last_snapshot x" "served ?c = []" "running ?c"
    by (simp_all add: set_client_def serving_def seen_def rd)
  let ?t = "step sample_world (Lock 7 close_env) ?c"
  have s: "shared (watch ?t) = w'" "served ?t = [(7, deny_incoming, Resp_Ok)]" "running ?t" "clients ?t 7 = Some (Replying Resp_Ok)"
    using s2 d by (simp_all add: client_lock_def set_client_def put_shared_def del: dispatch.simps)
  have c: "closing ?a = [(Accept 7, ?a), (Read_request 7 [0, 0, 0, 1, 1], ?b), (Lock 7 close_env, ?c)]"
    by (simp add: closing_def Let_def)
  have "service_run sample_world ?a [(Accept 7, ?a)] ?b"
    using run_more [OF run_start, of "Accept 7" ?a] by (simp add: serving_def)
  from run_more [OF this, of "Read_request 7 [0, 0, 0, 1, 1]"] s1
  have "service_run sample_world ?a [(Accept 7, ?a), (Read_request 7 [0, 0, 0, 1, 1], ?b)] ?c" by (simp del: step.simps)
  from run_more [OF this, of "Lock 7 close_env"] s2
  have run: "service_run sample_world ?a (closing ?a) ?t" by (simp add: c del: step.simps)
  have healthy: "all_healthy (closing ?a)"
    using close_env_laws x(4) s2 d by (simp add: all_healthy_def c del: dispatch.simps step.simps)
  have fmt: "keeps_format (io close_env) (closing ?a)"
    using close_env_laws by (simp add: keeps_format_def c same_format_def)
  have od: "ds_on_disk (shared (watch ?t)) = closed_od"
    unfolding s(1) using dispatch_ok_effect(1) [OF close_env_laws(1) inv d] x(2) by (simp add: closed_od_def)
  have maps: "IFACE_L2 (kmaps (shared (watch ?t))) = [3 \<mapsto> 0]" "CONNTRACK (kmaps (shared (watch ?t))) = Map.empty"
    unfolding s(1)
    using dispatch_loads(1) [of "shared x" close_env deny_incoming] dispatch_loads(2) [of close_env deny_incoming "shared x"]
      booted_inv(2) [OF x(1)] x(3) by (simp_all add: d loads_def serving_def del: dispatch.simps)
  show ?thesis by (rule that [OF x(1) run healthy fmt od maps s(2-4)])
qed

lemma closed_policy: "policy S closed_od In ifi p = Deny" "policy S closed_od Out ifi p = Allow" "needs_conntrack closed_od"
  by (simp_all add: policy_def resolved_def default_action_def closed_od_def on_disk_default_def default_out_default_def needs_conntrack_def)





text \<open>
  Property C3. Concurrent clients are served as if one after the other: in every interleaving, whatever fails and
  whoever times out, the order in which the requests held the mutex is a legal sequential history of
  the abstract daemon from the rules at the start, and the rule set is what it leads to;
  no client is served twice, each request in it is the one its client sent, and a client that
  reads an answer reads the answer to its own request.
\<close>

theorem clients_are_linearized:
  assumes "service_run W (serving x) h s"
  shows "legal (ds_on_disk (shared x)) (served s) \<and> ds_on_disk (shared (watch s)) = after (served s) (ds_on_disk (shared x)) \<and>
    distinct (map fst (served s)) \<and> (\<forall>(i, req, resp) \<in> set (served s). asked (w_json W) h i req) \<and>
    (\<forall>i bs. clients s i = Some (Closed (Inr bs)) \<longrightarrow>
       (\<exists>req resp. (i, req, resp) \<in> set (served s) \<and> rbind (response_to_json (w_json W) resp) write_frame = Inr bs))"
proof -
  have inv: "linear_inv W (ds_on_disk (shared x)) h s" by (rule linear_run [OF assms])
  then have "client_ok (w_json W) h (served s) i (clients s i)" for i by (simp add: linear_inv_def)
  from client_okD [OF this] have "\<exists>req resp. (i, req, resp) \<in> set (served s) \<and>
      rbind (response_to_json (w_json W) resp) write_frame = Inr bs" if "clients s i = Some (Closed (Inr bs))" for i bs
    using that .
  with inv show ?thesis unfolding linear_inv_def by blast
qed

theorem clients_are_linearized_witness:
  "\<exists>x h s. service_run sample_world (serving x) h s \<and> clients s 7 = Some (Closed (Inr [0, 0, 0, 1, 2])) \<and>
     legal (ds_on_disk (shared x)) (served s) \<and> (\<exists>req resp. (7, req, resp) \<in> set (served s))"
proof -
  obtain s0 s where s: "booted close_host Map.empty closed_maps s0" "service_run sample_world s0 (closing s0) s"
    "clients s 7 = Some (Replying Resp_Ok)" "running s" by (rule sample_closed)
  obtain x where x: "s0 = serving x" using booted_serving [OF s(1)] .
  let ?t = "step sample_world (Write_response 7) s"
  have run: "service_run sample_world (serving x) (closing s0 @ [(Write_response 7, s)]) ?t"
    using run_more [OF s(2), of "Write_response 7"] s(3,4) by (simp add: x)
  have "write_frame [2] = Inr [0, 0, 0, 1, 2]"
    by (simp add: write_frame_def to_be_bytes32_def drop_bit_eq_div)
  then have t: "clients ?t 7 = Some (Closed (Inr [0, 0, 0, 1, 2]))"
    using s(3) by (simp add: set_client_def client_write_def json_for_def)
  have "legal (ds_on_disk (shared x)) (served ?t)" "\<exists>req resp. (7, req, resp) \<in> set (served ?t)"
    using clients_are_linearized [OF run] t by blast+
  with run t show ?thesis by (intro exI [of _ x] exI [of _ ?t] exI [of _ "closing s0 @ [(Write_response 7, s)]"] conjI)
qed



text \<open>
  Property C13. A rule command that reports success has put its rules in force: if \<open>moatd allow\<close>,
  \<open>deny\<close> or \<open>reject\<close> succeeds over the control socket, the words of the command parsed to
  one or more rules, the daemon's rule set is the old one followed by exactly these rules,
  the rules file holds it, and the data path enforces it.
\<close>

theorem rule_command_success_means_in_force:
  assumes "json_round_trip J" and "link_law L" and "maps_ok E" and "toml_round_trip (io E)" and "io_read (io E)" and "daemon_inv w"
    and "main C (call L J E) (add_cmd a spec) w = (Inr output, w')"
  shows "\<exists>rules. parse_rule_spec (apps C) a spec = Inr rules \<and> rules \<noteq> [] \<and>
    ds_on_disk w' = with_rules (ds_on_disk w) rules \<and> load (io E) (disk w') RULES_FILE = Inr (ds_on_disk w') \<and>
    in_force (net E) (ds_on_disk w') (kmaps w')"
proof -
  obtain rules u where p: "parse_rule_spec (apps C) a spec = Inr rules" "rules \<noteq> []" "add_loop (call L J E) rules w = (Inr u, w')"
    using assms(7) by (auto simp: main_add_cmd add_def split: sum.splits if_splits prod.splits)
  from add_loop_ok [OF assms(1-3) p(3) assms(6)] p(2) obtain w1 r where
    "ds_on_disk w' = with_rules (ds_on_disk w) rules" "daemon_inv w1" "dispatch E (Req_AddRule r) w1 = (Resp_Ok, w')" by blast
  with dispatch_ok_effect(2,5) [OF assms(3) this(2,3)] assms(4,5) p show ?thesis by auto
qed

definition sample_cli :: "daemon_state cli_env" where
  "sample_cli = \<lparr>apps = sample_apps, systemctl = (\<lambda>_. Inr True), block_on_daemon = (\<lambda>s. (Inr [], s))\<rparr>"

lemma sample_cli_apps [simp]: "apps sample_cli = sample_apps"
  by (simp add: sample_cli_def)

definition ping_env :: denv where
  "ping_env = sample_env\<lparr>io := io_for (on_disk_default\<lparr>d_rules := [ping_rule]\<rparr>)\<rparr>"

lemma ping_env_laws: "maps_ok ping_env" "maps_total ping_env" "toml_round_trip (io ping_env)" "io_read (io ping_env)"
  using sample_env_laws(1,2) by (simp_all add: ping_env_def maps_ok_def maps_total_def io_for_laws)

lemma ping_added: "\<exists>w'. dispatch ping_env (Req_AddRule ping_rule) sample_state = (Resp_Ok, w')"
proof (rule dispatch_succeeds [OF ping_env_laws(2)])
  have od: "spec_step (Req_AddRule ping_rule) (ds_on_disk sample_state) = on_disk_default\<lparr>d_rules := [ping_rule]\<rparr>"
    by (simp add: sample_state_def on_disk_default_def ping_rule_def icmp_port_rule_def)
  show "accepts (Req_AddRule ping_rule) (ds_on_disk sample_state)"
    by (simp add: sample_state_def on_disk_default_def ping_rule_def icmp_port_rule_def)
  show "fst (save (io ping_env) (disk sample_state) RULES_FILE (spec_step (Req_AddRule ping_rule) (ds_on_disk sample_state))) = Inr ()"
    unfolding od by (simp add: save_def ping_env_def io_for_def sample_io_def sample_state_def has_parent_def RULES_FILE_def Let_def)
  show "is_ok (translate_rules (net ping_env) (d_rules (spec_step (Req_AddRule ping_rule) (ds_on_disk sample_state))))"
    unfolding od using translate_ping_rule by (simp add: is_ok_iff) blast
qed simp

lemma ping_spelled: "parse_rule_spec sample_apps Allow [''in'', ''proto'', ''icmp''] = Inr [ping_rule]"
  by (simp add: parse_rule_spec_def parse_full_grammar_def parse_clauses.simps(2) blank_rule_def
      parse_proto_word [of Icmp, simplified] ping_rule_def icmp_port_rule_def)

theorem rule_command_success_means_in_force_witness:
  "\<exists>w'. main sample_cli (call direct (json_for (Req_AddRule ping_rule)) ping_env) (Cmd_Allow [''in'', ''proto'', ''icmp'']) sample_state = (Inr [''rule added''], w') \<and>
     d_rules (ds_on_disk w') = [ping_rule] \<and> in_force (net ping_env) (ds_on_disk w') (kmaps w')"
proof -
  obtain w' where d: "dispatch ping_env (Req_AddRule ping_rule) sample_state = (Resp_Ok, w')" using ping_added by blast
  have "call direct (json_for (Req_AddRule ping_rule)) ping_env (Req_AddRule ping_rule) sample_state = (Inr Resp_Ok, w')"
    using call_dispatch [OF json_for_law, where req = "Req_AddRule ping_rule" and q = "[1]" and E = ping_env and w = sample_state and a = "[2]"]
    by (simp add: d json_for_def frame_ok_def MAX_FRAME_BYTES_def del: dispatch.simps)
  then have run: "main sample_cli (call direct (json_for (Req_AddRule ping_rule)) ping_env) (add_cmd Allow [''in'', ''proto'', ''icmp'']) sample_state =
      (Inr [''rule added''], w')"
    by (simp add: add_def ping_spelled)
  from rule_command_success_means_in_force [OF json_for_law direct_law ping_env_laws(1,3,4) sample_state_inv(1) run] run
  show ?thesis by (auto simp: ping_spelled with_rules_def sample_state_def on_disk_default_def)
qed

text \<open>
  Property C36. However a rule command ends (an error of the daemon, a lost connection, an answer that
  cannot be read), it has added the first few of the rules it parsed to, in order, and has
  changed nothing else of the rule set; for a command that does not parse, nothing.
\<close>

theorem rule_command_adds_a_prefix:
  assumes "json_round_trip J" and "link_law L" and "maps_ok E" and "daemon_inv w"
  shows "case parse_rule_spec (apps C) a spec of
      Inl e \<Rightarrow> main C (call L J E) (add_cmd a spec) w = (Inl e, w)
    | Inr rules \<Rightarrow> \<exists>k \<le> length rules. ds_on_disk (snd (main C (call L J E) (add_cmd a spec) w)) = with_rules (ds_on_disk w) (take k rules)"
proof (cases "parse_rule_spec (apps C) a spec")
  case (Inl e)
  then show ?thesis by (simp add: main_add_cmd add_def)
next
  case (Inr rules)
  obtain res w' where l: "add_loop (call L J E) rules w = (res, w')" by fastforce
  have "ds_on_disk (snd (main C (call L J E) (add_cmd a spec) w)) = ds_on_disk (snd (add_loop (call L J E) rules w))"
    by (cases res; cases "rules = []") (use l in \<open>auto simp: main_add_cmd add_def Inr\<close>)
  with add_loop_prefix [OF assms, of rules] show ?thesis by (simp add: Inr)
qed

theorem rule_command_adds_a_prefix_witness:
  "\<exists>k \<le> 1. ds_on_disk (snd (main sample_cli (call direct sample_json sample_env) (Cmd_Allow [''in'', ''proto'', ''icmp'']) sample_state)) =
     with_rules on_disk_default (take k [ping_rule])"
proof -
  have "json_round_trip sample_json" by (auto simp: json_round_trip_def sample_json_def split: if_splits)
  from rule_command_adds_a_prefix [OF this direct_law sample_env_laws(1) sample_state_inv(1), of sample_cli Allow "[''in'', ''proto'', ''icmp'']"]
  show ?thesis by (simp add: ping_spelled sample_state_def)
qed

text \<open>
  Property C34. A change of state between two polls that is undone before the second goes unseen: if a
  request is answered \<open>Ok\<close> while an interface is in another state than at the polls before
  and after it, the data path goes on enforcing the rules as resolved at the request, although
  the watcher has polled since.
\<close>

theorem flap_between_polls_is_missed:
  assumes "maps_ok E" and "daemon_inv (shared x)" and "dispatch E req (shared x) = (Resp_Ok, w)"
    and "last_snapshot x = iface_snapshot (net E')"
  shows "in_force (net E) (ds_on_disk w) (kmaps (shared (watch_tick A E' filt names (x\<lparr>shared := w\<rparr>))))"
proof -
  let ?y = "attach_new A (net E') filt (iface_snapshot (net E')) names (x\<lparr>shared := w\<rparr>)"
  have "watch_tick A E' filt names (x\<lparr>shared := w\<rparr>) = ?y" using assms(4) by (simp add: watch_tick_def)
  moreover have "in_force (net E) (ds_on_disk w) (kmaps (shared ?y)) = in_force (net E) (ds_on_disk w) (kmaps w)"
    using attach_new_same_policy [of "x\<lparr>shared := w\<rparr>" A "net E'" filt "iface_snapshot (net E')" names]
    by (intro in_force_cong) (simp_all add: same_policy_def)
  ultimately show ?thesis using dispatch_ok_effect(2) [OF assms(1-3)] by simp
qed

definition eth0_deny :: user_rule where
  "eth0_deny = \<lparr>u_direction = In, u_action = Deny, u_iface = Some ''eth0'', u_proto = None, u_src = None, u_dst = None,
     u_src_port = None, u_dst_port = None\<rparr>"

definition deny_od :: on_disk where
  "deny_od = on_disk_default\<lparr>d_rules := [eth0_deny]\<rparr>"

definition deny_env :: denv where
  "deny_env = sample_env\<lparr>io := io_for deny_od, net := sample_sysfs ''down''\<rparr>"

lemma deny_env_laws: "maps_ok deny_env" "maps_total deny_env"
  using sample_env_laws(1,2) by (simp_all add: deny_env_def maps_ok_def maps_total_def)

lemma deny_added: "\<exists>w'. dispatch deny_env (Req_AddRule eth0_deny) sample_state = (Resp_Ok, w')"
proof (rule dispatch_succeeds [OF deny_env_laws(2)])
  have od: "spec_step (Req_AddRule eth0_deny) (ds_on_disk sample_state) = deny_od"
    by (simp add: sample_state_def on_disk_default_def eth0_deny_def deny_od_def valid_iface_name_def)
  show "accepts (Req_AddRule eth0_deny) (ds_on_disk sample_state)"
    by (simp add: sample_state_def on_disk_default_def eth0_deny_def valid_iface_name_def)
  show "fst (save (io deny_env) (disk sample_state) RULES_FILE (spec_step (Req_AddRule eth0_deny) (ds_on_disk sample_state))) = Inr ()"
    unfolding od by (simp add: save_def deny_env_def io_for_def sample_io_def sample_state_def has_parent_def RULES_FILE_def Let_def)
  show "is_ok (translate_rules (net deny_env) (d_rules (spec_step (Req_AddRule eth0_deny) (ds_on_disk sample_state))))"
    unfolding od
    by (simp add: deny_od_def eth0_deny_def build_wire_rule_def parse_opt_def rule_family_def port_bounds_def)
qed simp

lemma deny_policy:
  "policy (sample_sysfs ''up'') deny_od In 3 sample_parsed = Deny"
  "policy (sample_sysfs ''down'') deny_od In 3 sample_parsed = Allow"
proof -
  have "resolve_iface (sample_sysfs ''up'') (Some ''eth0'') = 3" "resolve_iface (sample_sysfs ''down'') (Some ''eth0'') = IFACE_ABSENT"
    by (simp_all add: iface_is_up_def resolve_iface_def sample_sysfs_def net_file_def trim_def strip_all.simps
        white_space_def starts_with_def parse_uint_defs)
  then show "policy (sample_sysfs ''up'') deny_od In 3 sample_parsed = Deny"
    "policy (sample_sysfs ''down'') deny_od In 3 sample_parsed = Allow"
    by (simp_all add: policy_def resolved_def deny_od_def eth0_deny_def user_matches_def proto_ok_def addr_ok_def port_ok_def
        default_action_def on_disk_default_def default_in_default_def moat_consts)
qed

theorem flap_between_polls_is_missed_witness:
  "\<exists>w. dispatch deny_env (Req_AddRule eth0_deny) sample_state = (Resp_Ok, w) \<and>
     policy (net sample_env) (ds_on_disk w) In 3 sample_parsed = Deny \<and>
     fst (walk_rules (kmaps (shared (watch_tick no_attach sample_env (\<lambda>_. True) [''eth0'']
       \<lparr>last_snapshot = iface_snapshot (net sample_env), attached_set = Map.empty, shared = w\<rparr>))) DIR_IN 3 sample_parsed) = ACT_ALLOW"
proof -
  obtain w where w: "dispatch deny_env (Req_AddRule eth0_deny) sample_state = (Resp_Ok, w)" using deny_added by blast
  let ?x = "\<lparr>last_snapshot = iface_snapshot (net sample_env), attached_set = Map.empty, shared = sample_state\<rparr>"
  have od: "ds_on_disk w = deny_od"
    using dispatch_ok_effect(1) [OF deny_env_laws(1) sample_state_inv(1) w]
    by (simp add: sample_state_def on_disk_default_def eth0_deny_def deny_od_def valid_iface_name_def)
  have nets: "net sample_env = sample_sysfs ''up''" "net deny_env = sample_sysfs ''down''"
    by (simp_all add: sample_env_def deny_env_def)
  have "in_force (net deny_env) (ds_on_disk w) (kmaps (shared (watch_tick no_attach sample_env (\<lambda>_. True) [''eth0''] (?x\<lparr>shared := w\<rparr>))))"
    by (rule flap_between_polls_is_missed [OF deny_env_laws(1), where req = "Req_AddRule eth0_deny"])
      (simp_all add: w del: dispatch.simps)
  from in_force_walk(1) [OF this ref_v4_wf [OF ref_v4_sample], of 3] w deny_policy show ?thesis
    by (simp add: od nets del: dispatch.simps)
qed

text \<open>
  The same gap at the start: the watcher's baseline is the snapshot it takes when its task first runs, not the
  interfaces that the first synchronisation saw. As long as the polls find the interfaces
  of the baseline, the data path goes on enforcing the rules as resolved at the synchronisation.
\<close>

theorem late_baseline_is_missed:
  assumes "run_daemon H ns sock files m = Inr st" and "maps_ok (h_env H)" and "wf_on_disk (file_rules (io (h_env H)) files)"
    and "iface_snapshot (net E) = iface_snapshot (h_watch_net H)"
  shows "in_force (net (h_env H)) (file_rules (io (h_env H)) files) (kmaps (shared (watch_tick A E filt names (st_watch st))))"
proof -
  let ?x = "st_watch st"
  let ?y = "attach_new A (net E) filt (iface_snapshot (net E)) names ?x"
  obtain attached m1 where start: "start_daemon (h_env H) attached files m1 = Inr (shared ?x)"
    and last: "last_snapshot ?x = iface_snapshot (h_watch_net H)"
    using run_daemon_started [OF assms(1)] by metis
  have "watch_tick A E filt names ?x = ?y" using assms(4) last by (simp add: watch_tick_def)
  moreover have "in_force (net (h_env H)) od (kmaps (shared ?y)) = in_force (net (h_env H)) od (kmaps (shared ?x))" for od
    using attach_new_same_policy [of ?x A "net E" filt "iface_snapshot (net E)" names]
    by (intro in_force_cong) (simp_all add: same_policy_def)
  ultimately show ?thesis using start_daemon_in_force(2,5) [OF start assms(2,3)] by simp
qed

end
